theory Spec2Isabelle
  imports Complex_Main "HOL-Library.Sublist"
begin

section \<open>Errors\<close>

text \<open>
  The exceptions the modelled Python can raise. \<open>RuntimeError\<close> carries the message of
  the \<^verbatim>\<open>raise RuntimeError(...)\<close> statement; \<open>UnexpectedShape\<close> is the branch of
  \<^verbatim>\<open>convert\<close> that logs "Unexpected image shape" and returns False; \<open>H5Error\<close> stands
  for any exception of the HDF5 library when it refuses a dataset.
\<close>

datatype error =
    IndexError
  | ValueError
  | ZeroDivisionError
  | RuntimeError string
  | UnexpectedShape
  | H5Error

section \<open>Arrays\<close>

text \<open>
  A numpy array is its shape together with the element at every index tuple. Only index
  tuples inside the shape are meaningful. Python's unbounded non-negative integers
  (extents, indices) are \<open>nat\<close>.
\<close>

record 'a ndarray =
  shape :: "nat list"
  item :: "nat list \<Rightarrow> 'a"

definition ndim :: "'a ndarray \<Rightarrow> nat" where
  "ndim a = length (shape a)"

text \<open>\<^verbatim>\<open>a.size\<close>: the number of elements.\<close>

definition size_nd :: "'a ndarray \<Rightarrow> nat" where
  "size_nd a = prod_list (shape a)"

text \<open>
  Row-major (C order) position of an index tuple, and its inverse: what numpy uses to
  pair the elements of an array with those of its reshaped copy.
\<close>

fun ravel :: "nat list \<Rightarrow> nat list \<Rightarrow> nat" where
  "ravel (n # ns) (i # is) = i * prod_list ns + ravel ns is"
| "ravel _ _ = 0"

fun unravel :: "nat list \<Rightarrow> nat \<Rightarrow> nat list" where
  "unravel [] k = []"
| "unravel (n # ns) k = (k div prod_list ns) # unravel ns (k mod prod_list ns)"

text \<open>
  \<^verbatim>\<open>a.transpose(perm)\<close>: axis \<open>i\<close> of the result is axis \<open>perm ! i\<close> of \<open>a\<close>, so the
  element of the result at \<open>idx\<close> is the element of \<open>a\<close> whose \<open>j\<close>-th index is the
  component of \<open>idx\<close> at the place where \<open>perm\<close> holds \<open>j\<close>. numpy raises ValueError
  when \<open>perm\<close> is not a permutation of the axes.
\<close>

fun index_of :: "nat \<Rightarrow> nat list \<Rightarrow> nat" where
  "index_of j [] = 0"
| "index_of j (p # ps) = (if p = j then 0 else Suc (index_of j ps))"

definition transpose_nd :: "nat list \<Rightarrow> 'a ndarray \<Rightarrow> error + 'a ndarray" where
  "transpose_nd perm a =
     (if sort perm = [0 ..< ndim a]
      then Inr \<lparr> shape = map (\<lambda>i. shape a ! i) perm,
                 item = (\<lambda>idx. item a (map (\<lambda>j. idx ! index_of j perm) [0 ..< ndim a])) \<rparr>
      else Inl ValueError)"

text \<open>
  \<^verbatim>\<open>a.reshape(new)\<close>: the elements in row-major order, under the new shape. numpy raises
  ValueError when the number of elements differs.
\<close>

definition reshape_nd :: "nat list \<Rightarrow> 'a ndarray \<Rightarrow> error + 'a ndarray" where
  "reshape_nd new a =
     (if prod_list new = size_nd a
      then Inr \<lparr> shape = new, item = (\<lambda>idx. item a (unravel (shape a) (ravel new idx))) \<rparr>
      else Inl ValueError)"

text \<open>
  Indexing with \<^verbatim>\<open>np.newaxis\<close>: \<open>insert_axis k a\<close> puts a new axis of extent 1 at
  position \<open>k\<close> and keeps every other axis whole (\<^verbatim>\<open>:\<close>).
\<close>

definition insert_axis :: "nat \<Rightarrow> 'a ndarray \<Rightarrow> 'a ndarray" where
  "insert_axis k a =
     \<lparr> shape = take k (shape a) @ [1] @ drop k (shape a),
       item = (\<lambda>idx. item a (take k idx @ drop (Suc k) idx)) \<rparr>"

text \<open>
  The length of \<^verbatim>\<open>range(0, n, step)\<close>, the extent an axis of extent \<open>n\<close> has after the
  slice \<^verbatim>\<open>::step\<close>.
\<close>

definition slice_len :: "nat \<Rightarrow> nat \<Rightarrow> nat" where
  "slice_len n step = (n + step - 1) div step"

text \<open>
  \<^verbatim>\<open>a[:, :, :, ::sy, ::sx]\<close>: axes 3 and 4 taken with a stride, the others whole. numpy
  raises IndexError (too many indices) on an array of rank below 5.
\<close>

definition stride_yx :: "nat \<Rightarrow> nat \<Rightarrow> 'a ndarray \<Rightarrow> error + 'a ndarray" where
  "stride_yx sy sx a =
     (if ndim a < 5 then Inl IndexError
      else Inr \<lparr> shape = (shape a)[3 := slice_len (shape a ! 3) sy,
                                   4 := slice_len (shape a ! 4) sx],
                 item = (\<lambda>idx. item a (idx[3 := sy * (idx ! 3), 4 := sx * (idx ! 4)])) \<rparr>)"

text \<open>
  \<^verbatim>\<open>a[0, :, 0, ::sy, ::sx]\<close>: the first index of axes 0 and 2, which drop out of the
  result, and axes 3 and 4 with a stride. numpy raises IndexError on rank below 5 and when
  axis 0 or axis 2 is empty.
\<close>

definition first_plane :: "nat \<Rightarrow> nat \<Rightarrow> 'a ndarray \<Rightarrow> error + 'a ndarray" where
  "first_plane sy sx a =
     (if ndim a < 5 then Inl IndexError
      else if shape a ! 0 = 0 \<or> shape a ! 2 = 0 then Inl IndexError
      else Inr \<lparr> shape = (shape a ! 1) # slice_len (shape a ! 3) sy
                           # slice_len (shape a ! 4) sx # drop 5 (shape a),
                 item = (\<lambda>idx. item a (0 # (idx ! 0) # 0 # sy * (idx ! 1)
                                         # sx * (idx ! 2) # drop 3 idx)) \<rparr>)"

section \<open>Axis normalisation (\<^verbatim>\<open>VSIToUniv.convert\<close>, the \<^verbatim>\<open>ndim\<close> cascade)\<close>

text \<open>
  \<^verbatim>\<open>image_data.transpose(0, 1, 5, 2, 3, 4).reshape(t, c*s, z, y, x)\<close> with
  \<^verbatim>\<open>t, c, z, y, x, s = image_data.shape\<close>. The same two calls fold the sample axis in
  \<^verbatim>\<open>FormatConverterGUI._convert_vsi_to_ometiff\<close>.
\<close>

definition merge_samples :: "'a ndarray \<Rightarrow> error + 'a ndarray" where
  "merge_samples a =
     (case shape a of
        [t, c, z, y, x, s] \<Rightarrow>
          (case transpose_nd [0, 1, 5, 2, 3, 4] a of
             Inl e \<Rightarrow> Inl e
           | Inr b \<Rightarrow> reshape_nd [t, c * s, z, y, x] b)
      | _ \<Rightarrow> Inl ValueError)"

text \<open>
  The cascade on \<^verbatim>\<open>image_data.ndim\<close>. The last branch logs "Unexpected image shape" and
  makes \<^verbatim>\<open>convert\<close> return False: the \<open>Inl UnexpectedShape\<close> result here.
\<close>

definition normalize_axes :: "'a ndarray \<Rightarrow> error + 'a ndarray" where
  "normalize_axes a =
     (if ndim a = 2 then Inr (insert_axis 0 (insert_axis 0 (insert_axis 0 a)))
      else if ndim a = 3 then Inr (insert_axis 2 (insert_axis 0 a))
      else if ndim a = 4 then Inr (insert_axis 2 a)
      else if ndim a = 5 then Inr a
      else if ndim a = 6 then merge_samples a
      else Inl UnexpectedShape)"

section \<open>Scene selection\<close>

text \<open>
  One entry of \<^verbatim>\<open>scene_info\<close>, the dict built per scene by
  \<^verbatim>\<open>_analyze_vsi_structure\<close>. The keys \<^verbatim>\<open>dims\<close> and \<^verbatim>\<open>pixel_size_um\<close> are display
  text that no selection reads; they are left out.
\<close>

record scene =
  scene_index :: nat
  scene_name :: string
  scene_shape :: "nat list"
  width :: nat
  height :: nat
  total_pixels :: nat

text \<open>
  The loop body of \<^verbatim>\<open>_analyze_vsi_structure\<close> for scene number \<open>i\<close> with name \<open>nm\<close>, whose
  image has shape \<open>shp\<close>: \<^verbatim>\<open>shape[-2]\<close> and \<^verbatim>\<open>shape[-1]\<close>, or 0 on a shape too short.
\<close>

definition scene_data :: "nat \<Rightarrow> string \<Rightarrow> nat list \<Rightarrow> scene" where
  "scene_data i nm shp =
     (let y_size = (if length shp \<ge> 2 then shp ! (length shp - 2) else 0);
          x_size = (if length shp \<ge> 1 then shp ! (length shp - 1) else 0);
          total = y_size * x_size
      in \<lparr> scene_index = i, scene_name = nm, scene_shape = shp,
           width = x_size, height = y_size, total_pixels = total \<rparr>)"

text \<open>
  \<^verbatim>\<open>_analyze_vsi_structure\<close>. The reader's scenes are given as the list of their names
  and shapes, in the reader's order; \<open>shp\<close> is the shape of the image when the reader lists
  no scene. In that branch \<^verbatim>\<open>shape[-1]\<close> and \<^verbatim>\<open>shape[-2]\<close> raise on a shape of rank below 2;
  the function catches every exception and returns the empty list.
\<close>

definition analyze_vsi_structure :: "(string \<times> nat list) list \<Rightarrow> nat list \<Rightarrow> scene list" where
  "analyze_vsi_structure scenes shp =
     (if length scenes > 0
      then map (\<lambda>(i, (nm, s)). scene_data i nm s) (enumerate 0 scenes)
      else if length shp < 2 then []
      else [\<lparr> scene_index = 0, scene_name = ''default'', scene_shape = shp,
              width = shp ! (length shp - 1), height = shp ! (length shp - 2),
              total_pixels = shp ! (length shp - 1) * shp ! (length shp - 2) \<rparr>])"

text \<open>
  \<^verbatim>\<open>str.lower()\<close> on the ASCII letters, and the substring test \<^verbatim>\<open>sub in s\<close>. Strings are
  byte strings here; no character outside ASCII lowers to a letter of "label" or "macro".
\<close>

definition lower_char :: "char \<Rightarrow> char" where
  "lower_char c =
     (case map_of (zip ''ABCDEFGHIJKLMNOPQRSTUVWXYZ'' ''abcdefghijklmnopqrstuvwxyz'') c of
        None \<Rightarrow> c
      | Some l \<Rightarrow> l)"

definition lower :: "string \<Rightarrow> string" where
  "lower s = map lower_char s"

fun contains :: "string \<Rightarrow> string \<Rightarrow> bool" where
  "contains sub [] = (sub = [])"
| "contains sub (c # cs) = (prefix sub (c # cs) \<or> contains sub cs)"

text \<open>
  \<^verbatim>\<open>max(xs, key=k)\<close> keeps the first element whose key is greatest: a later element
  replaces the current one only when its key is strictly greater. On an empty list
  Python raises ValueError.
\<close>

fun max_from :: "('a \<Rightarrow> nat) \<Rightarrow> 'a \<Rightarrow> 'a list \<Rightarrow> 'a" where
  "max_from k best [] = best"
| "max_from k best (x # xs) = max_from k (if k x > k best then x else best) xs"

definition max_key :: "('a \<Rightarrow> nat) \<Rightarrow> 'a list \<Rightarrow> error + 'a" where
  "max_key k xs = (case xs of [] \<Rightarrow> Inl ValueError | x # rest \<Rightarrow> Inr (max_from k x rest))"

text \<open>\<^verbatim>\<open>VSIToUniv._find_main_image_scene\<close>.\<close>

definition find_main_image_scene :: "scene list \<Rightarrow> error + nat" where
  "find_main_image_scene scene_info =
     (if scene_info = [] then Inr 0
      else
        let main_scenes = filter (\<lambda>s. \<not> contains ''label'' (lower (scene_name s)) \<and>
                                       \<not> contains ''macro'' (lower (scene_name s))) scene_info;
            main_scenes = (if main_scenes = [] then scene_info else main_scenes)
        in case max_key total_pixels main_scenes of
             Inl e \<Rightarrow> Inl e
           | Inr main_scene \<Rightarrow> Inr (scene_index main_scene))"

text \<open>
  \<^verbatim>\<open>FormatConverterGUI._select_vsi_scene\<close> with the resolution choice "Highest (auto)":
  the tuples \<^verbatim>\<open>(i, name, size, shape)\<close> of all scenes, the same filter, a stable sort by
  size with the largest first, and the first tuple of the result. With at most one scene
  the function returns without selecting (\<open>None\<close>); \<^verbatim>\<open>img.shape[-2]\<close> raises IndexError
  on a shape of rank below 2.
\<close>

definition select_vsi_scene_auto :: "(string \<times> nat list) list \<Rightarrow> error + nat option" where
  "select_vsi_scene_auto scenes =
     (if length scenes \<le> 1 then Inr None
      else if \<exists>(nm, shp) \<in> set scenes. length shp < 2 then Inl IndexError
      else
        let scene_sizes = map (\<lambda>(i, (nm, shp)).
                                 (i, nm, shp ! (length shp - 2) * shp ! (length shp - 1), shp))
                              (enumerate 0 scenes);
            main_scenes = filter (\<lambda>(i, n, s, sh). \<not> contains ''label'' (lower n) \<and>
                                                  \<not> contains ''macro'' (lower n)) scene_sizes;
            main_scenes = (if main_scenes = [] then scene_sizes else main_scenes);
            main_scenes = sort_key (\<lambda>(i, n, s, sh). - int s) main_scenes
        in Inr (Some (fst (hd main_scenes))))"

section \<open>The container file\<close>

text \<open>
  Scalar values the writer stores as attributes and passes as options; Python floats
  are exact rationals here.
\<close>

datatype pyval = IntV int | StrV string | FloatV rat

text \<open>
  An HDF5 file is the sequence of objects written to it, in the order of the calls:
  a dataset with its name, chunk shape (if given), keyword options and data; the text
  dataset holding the JSON of a dict of strings (the serialisation itself is not
  modelled); a group; an attribute of the object at a path (\<open>''/''\<close> is the root).
\<close>

datatype 'a h5event =
    CreateDataset string "nat list option" "(string \<times> pyval) list" "'a ndarray"
  | CreateJson string "(string \<times> string) list"
  | CreateGroup string
  | SetAttr string string pyval

type_synonym 'a h5file = "'a h5event list"

text \<open>The file system: the container files by path.\<close>

type_synonym 'a fs = "string \<rightharpoonup> 'a h5file"

text \<open>
  What the HDF5 library does with a request is outside this code: \<open>lib name shp chunks\<close>
  tells whether it accepts a dataset of that name, shape and chunk shape. A refused
  request raises and writes nothing.
\<close>

type_synonym h5lib = "string \<Rightarrow> nat list \<Rightarrow> nat list option \<Rightarrow> bool"

text \<open>
  A step of the writer returns the exception it raised, if any, and the file as it is
  then. \<open>and_then\<close> runs the next step unless one was raised.
\<close>

type_synonym 'a step = "error option \<times> 'a h5file"

definition and_then :: "'a step \<Rightarrow> ('a h5file \<Rightarrow> 'a step) \<Rightarrow> 'a step" where
  "and_then r g = (case r of (Some e, f) \<Rightarrow> (Some e, f) | (None, f) \<Rightarrow> g f)"

definition create_dataset ::
  "h5lib \<Rightarrow> string \<Rightarrow> nat list option \<Rightarrow> (string \<times> pyval) list \<Rightarrow> 'a ndarray
     \<Rightarrow> 'a h5file \<Rightarrow> 'a step" where
  "create_dataset lib nm chunks opts data f =
     (if lib nm (shape data) chunks then (None, f @ [CreateDataset nm chunks opts data])
      else (Some H5Error, f))"

text \<open>
  Reading a file: the path of the object an entry writes to, the shape of a dataset,
  the top-level group of a path (empty for the root), and the attributes of an object
  in the order they were set.
\<close>

fun event_path :: "'a h5event \<Rightarrow> string" where
  "event_path (CreateDataset nm chunks opts data) = nm"
| "event_path (CreateJson nm js) = nm"
| "event_path (CreateGroup nm) = nm"
| "event_path (SetAttr p k v) = p"

fun dataset_shape :: "'a h5event \<Rightarrow> nat list" where
  "dataset_shape (CreateDataset nm chunks opts data) = shape data"
| "dataset_shape _ = []"

definition top_level :: "string \<Rightarrow> string" where
  "top_level p = takeWhile (\<lambda>c. c \<noteq> CHR ''/'') p"

fun attr_of :: "string \<Rightarrow> 'a h5event \<Rightarrow> (string \<times> pyval) list" where
  "attr_of p (SetAttr q k v) = (if p = q then [(k, v)] else [])"
| "attr_of p _ = []"

definition attrs_of :: "string \<Rightarrow> 'a h5file \<Rightarrow> (string \<times> pyval) list" where
  "attrs_of p f = concat (map (attr_of p) f)"

text \<open>
  The part of the container an entry belongs to: its top-level group, or, for the
  attributes of the root that \<^verbatim>\<open>_write_schema\<close> sets, the schema stamp.
\<close>

definition written_group :: "'a h5event \<Rightarrow> string" where
  "written_group e = (if event_path e = ''/'' then ''Schema'' else top_level (event_path e))"

text \<open>
  The pyramid levels of a file: the datasets \<^verbatim>\<open>ImageData/Resolution_k\<close> other than the
  base \<^verbatim>\<open>ImageData/Resolution_0\<close>.
\<close>

definition pyramid_levels :: "'a h5file \<Rightarrow> 'a h5event list" where
  "pyramid_levels f =
     filter (\<lambda>e. prefix ''ImageData/Resolution_'' (event_path e) \<and>
                 event_path e \<noteq> ''ImageData/Resolution_0'') f"

text \<open>\<^verbatim>\<open>str(n)\<close> of a non-negative integer, as used in f-strings.\<close>

fun str_nat :: "nat \<Rightarrow> string" where
  "str_nat n = (if n < 10 then [''0123456789'' ! n]
                else str_nat (n div 10) @ [''0123456789'' ! (n mod 10)])"

declare str_nat.simps [simp del]

text \<open>The \<^verbatim>\<open>comp_opts\<close> dict built by \<^verbatim>\<open>_write_univ\<close> and \<^verbatim>\<open>_create_pyramid\<close>.\<close>

definition comp_opts :: "string \<Rightarrow> int \<Rightarrow> (string \<times> pyval) list" where
  "comp_opts compression compression_level =
     (if compression \<noteq> ''none''
      then (''compression'', StrV compression) #
           (if compression = ''gzip'' then [(''compression_opts'', IntV compression_level)]
            else [])
      else [])"

section \<open>Pyramid (\<^verbatim>\<open>VSIToUniv._create_pyramid\<close>)\<close>

text \<open>
  The \<^verbatim>\<open>while\<close> loop, with its variables \<^verbatim>\<open>current_data\<close> and \<^verbatim>\<open>level\<close> and the file.
  \<^verbatim>\<open>shape[3]\<close> raises IndexError on a rank below 5.
\<close>

function pyramid_loop ::
  "h5lib \<Rightarrow> (string \<times> pyval) list \<Rightarrow> 'a ndarray \<Rightarrow> nat \<Rightarrow> 'a h5file \<Rightarrow> 'a step" where
  "pyramid_loop lib opts current_data level f =
     (if ndim current_data < 5 then (Some IndexError, f)
      else if min (shape current_data ! 3) (shape current_data ! 4) > 256 then
        (case stride_yx 2 2 current_data of
           Inl e \<Rightarrow> (Some e, f)
         | Inr downsampled \<Rightarrow>
             (case create_dataset lib (''ImageData/Resolution_'' @ str_nat level)
                     (Some [1, 1, 1, min 256 (shape downsampled ! 3),
                            min 256 (shape downsampled ! 4)])
                     opts downsampled f of
                (Some e, f') \<Rightarrow> (Some e, f')
              | (None, f') \<Rightarrow> pyramid_loop lib opts downsampled (level + 1) f'))
      else (None, f))"
  by pat_completeness auto
termination
proof (relation "measure (\<lambda>(lib, opts, a, level, f). shape a ! 3)", goal_cases)
  case 1
  show ?case by simp
next
  case 2
  then show ?case
    by (auto simp: stride_yx_def slice_len_def ndim_def split: if_splits)
qed

declare pyramid_loop.simps [simp del]

definition create_pyramid ::
  "h5lib \<Rightarrow> 'a ndarray \<Rightarrow> string \<Rightarrow> int \<Rightarrow> 'a h5file \<Rightarrow> 'a step" where
  "create_pyramid lib image_data compression compression_level f =
     pyramid_loop lib (comp_opts compression compression_level) image_data 1 f"

text \<open>
  A run of the loop seen from the file: \<open>level_chain s lv es\<close> says that \<open>es\<close> are the
  datasets of consecutive levels numbered from \<open>lv\<close>, each written because the level
  before it (of shape \<open>s\<close> for the first) had both extents above 256, and each the
  stride-2 slice of the level before it.
\<close>

fun level_chain :: "nat list \<Rightarrow> nat \<Rightarrow> 'a h5event list \<Rightarrow> bool" where
  "level_chain s lv [] = True"
| "level_chain s lv (e # es) =
     (256 < min (s ! 3) (s ! 4) \<and>
      event_path e = ''ImageData/Resolution_'' @ str_nat lv \<and>
      dataset_shape e = s[3 := (s ! 3 + 1) div 2, 4 := (s ! 4 + 1) div 2] \<and>
      level_chain (dataset_shape e) (Suc lv) es)"

text \<open>
  The number of levels as the specification gives it, \<open>floor(log2(min(Y0,X0)/256))\<close>,
  for comparison with the number the loop writes.
\<close>

definition spec_level_count :: "nat \<Rightarrow> int" where
  "spec_level_count m = \<lfloor>log 2 (real m / 256)\<rfloor>"

section \<open>Thumbnail (\<^verbatim>\<open>VSIToUniv._create_thumbnail\<close>)\<close>

text \<open>
  \<^verbatim>\<open>scale = min(256 / x_size, 256 / y_size)\<close> is a true division: it raises
  ZeroDivisionError on an empty axis. Python's floats are exact rationals here, and
  \<^verbatim>\<open>int(1 / scale)\<close> is the floor of a positive number. The last test of the source,
  \<^verbatim>\<open>thumbnail.ndim == 2\<close>, adds a leading axis.
\<close>

definition create_thumbnail :: "h5lib \<Rightarrow> 'a ndarray \<Rightarrow> 'a h5file \<Rightarrow> 'a step" where
  "create_thumbnail lib image_data f =
     (if ndim image_data < 5 then (Some IndexError, f)
      else
        let y_size = shape image_data ! 3; x_size = shape image_data ! 4 in
        if x_size = 0 \<or> y_size = 0 then (Some ZeroDivisionError, f)
        else
          let scale = min (256 / of_nat x_size) (256 / of_nat y_size :: rat) in
          case (if scale \<ge> 1 then first_plane 1 1 image_data
                else
                  let step_y = max 1 (nat \<lfloor>1 / scale\<rfloor>);
                      step_x = max 1 (nat \<lfloor>1 / scale\<rfloor>)
                  in first_plane step_y step_x image_data) of
            Inl e \<Rightarrow> (Some e, f)
          | Inr thumbnail \<Rightarrow>
              create_dataset lib ''Thumbnail'' None [(''compression'', StrV ''gzip'')]
                (if ndim thumbnail = 2 then insert_axis 0 thumbnail else thumbnail) f)"

section \<open>Metadata, provenance and schema\<close>

text \<open>
  The \<^verbatim>\<open>metadata\<close> dict, with the keys the writer reads; a key may be absent. The
  writer takes the time from the clock three times: \<open>now k\<close> is the ISO text of reading
  number \<open>k\<close>.
\<close>

record physical_size =
  phys_X :: "rat option"
  phys_Y :: "rat option"
  phys_Z :: "rat option"
  phys_unit :: "string option"

record metadata =
  source_file :: "string option"
  file_format :: "string option"
  physical_size :: "physical_size option"
  channel_names :: "string list option"

text \<open>\<^verbatim>\<open>d.get(key, default)\<close>.\<close>

definition get_or :: "'a option \<Rightarrow> 'a \<Rightarrow> 'a" where
  "get_or v d = (case v of None \<Rightarrow> d | Some x \<Rightarrow> x)"

text \<open>The default unit, the two bytes of the micro sign in UTF-8 followed by \<open>m\<close>.\<close>

definition micrometre :: string where
  "micrometre = [CHR 0xC2, CHR 0xB5, CHR ''m'']"

text \<open>
  \<^verbatim>\<open>_write_metadata\<close>. The five \<^verbatim>\<open>shape[k]\<close> reads raise IndexError at the first index
  the shape does not have, after the groups and the attributes before it are written.
\<close>

definition write_metadata ::
  "(nat \<Rightarrow> string) \<Rightarrow> metadata \<Rightarrow> nat list \<Rightarrow> 'a h5file \<Rightarrow> 'a step" where
  "write_metadata now md shp f =
     (let dims = [CreateGroup ''Metadata'', CreateGroup ''Metadata/Dimensions''] @
                 map (\<lambda>(k, key). SetAttr ''Metadata/Dimensions'' key (IntV (int (shp ! k))))
                   (take (length shp)
                      (enumerate 0 [''SizeT'', ''SizeC'', ''SizeZ'', ''SizeY'', ''SizeX'']))
      in if length shp < 5 then (Some IndexError, f @ dims)
         else
           (None,
            f @ dims @ [SetAttr ''Metadata/Dimensions'' ''DimensionOrder'' (StrV ''TCZYX'')] @
            (case physical_size md of
               None \<Rightarrow> []
             | Some phys_data \<Rightarrow>
                 [CreateGroup ''Metadata/PhysicalSize'',
                  SetAttr ''Metadata/PhysicalSize'' ''X'' (FloatV (get_or (phys_X phys_data) 1)),
                  SetAttr ''Metadata/PhysicalSize'' ''Y'' (FloatV (get_or (phys_Y phys_data) 1)),
                  SetAttr ''Metadata/PhysicalSize'' ''Z'' (FloatV (get_or (phys_Z phys_data) 1)),
                  SetAttr ''Metadata/PhysicalSize'' ''Unit''
                    (StrV (get_or (phys_unit phys_data) micrometre))]) @
            [CreateGroup ''Metadata/Source'',
             SetAttr ''Metadata/Source'' ''OriginalFile''
               (StrV (get_or (source_file md) ''unknown'')),
             SetAttr ''Metadata/Source'' ''OriginalFormat''
               (StrV (get_or (file_format md) ''VSI'')),
             SetAttr ''Metadata/Source'' ''ConversionDate'' (StrV (now 0))] @
            (case channel_names md of
               None \<Rightarrow> []
             | Some names \<Rightarrow>
                 if names = [] then []
                 else CreateGroup ''Metadata/Channels'' #
                      map (\<lambda>(i, nm). SetAttr ''Metadata/Channels'' (''Channel_'' @ str_nat i)
                                         (StrV nm))
                        (enumerate 0 names))))"

text \<open>\<^verbatim>\<open>_write_provenance\<close>.\<close>

definition write_provenance :: "(nat \<Rightarrow> string) \<Rightarrow> metadata \<Rightarrow> 'a h5file \<Rightarrow> 'a step" where
  "write_provenance now md f =
     (None,
      f @ [CreateGroup ''Provenance'',
           SetAttr ''Provenance'' ''created'' (StrV (now 1)),
           SetAttr ''Provenance'' ''creator'' (StrV ''VSI to .univ converter''),
           SetAttr ''Provenance'' ''source_format'' (StrV ''Olympus VSI''),
           SetAttr ''Provenance'' ''source_file'' (StrV (get_or (source_file md) ''unknown'')),
           CreateJson ''Provenance/conversion_history''
             [(''conversion_tool'', ''vsi_to_univ.py''),
              (''timestamp'', now 2),
              (''source'', get_or (source_file md) ''unknown'')]])"

text \<open>\<^verbatim>\<open>_write_schema\<close>: three attributes of the root.\<close>

definition write_schema :: "'a h5file \<Rightarrow> 'a step" where
  "write_schema f =
     (None,
      f @ [SetAttr ''/'' ''format'' (StrV ''univ''),
           SetAttr ''/'' ''version'' (StrV ''1.0''),
           SetAttr ''/'' ''schema_version'' (StrV ''1.0'')])"

section \<open>The writer (\<^verbatim>\<open>VSIToUniv._write_univ\<close>)\<close>

text \<open>
  The body of the \<^verbatim>\<open>with h5py.File(output_path, 'w') as f\<close> block, on the file \<open>f\<close>.
  \<^verbatim>\<open>shape[2]\<close> raises IndexError on a rank below 5.
\<close>

definition write_univ_body ::
  "h5lib \<Rightarrow> (nat \<Rightarrow> string) \<Rightarrow> 'a ndarray \<Rightarrow> metadata \<Rightarrow> bool \<Rightarrow> string \<Rightarrow> int
     \<Rightarrow> 'a h5file \<Rightarrow> 'a step" where
  "write_univ_body lib now image_data md create_pyramid_flag compression compression_level f =
     (if ndim image_data < 5 then (Some IndexError, f)
      else
        let shp = shape image_data;
            chunk_size = [1, 1, min 5 (shp ! 2), min 512 (shp ! 3), min 512 (shp ! 4)]
        in
        and_then (create_dataset lib ''ImageData/Resolution_0'' (Some chunk_size)
                    (comp_opts compression compression_level) image_data f) (\<lambda>f.
        if size_nd image_data = 0
        then (Some (RuntimeError ''Failed to write image data - dataset is empty''), f)
        else
        and_then (if create_pyramid_flag \<and> min (shp ! 3) (shp ! 4) > 512
                  then create_pyramid lib image_data compression compression_level f
                  else (None, f)) (\<lambda>f.
        and_then (create_thumbnail lib image_data f) (\<lambda>f.
        and_then (write_metadata now md (shape image_data) f) (\<lambda>f.
        and_then (write_provenance now md f) (\<lambda>f.
        write_schema f))))))"

text \<open>
  \<^verbatim>\<open>_write_univ\<close>: mode \<^verbatim>\<open>'w'\<close> creates the file at \<^verbatim>\<open>output_path\<close>, or empties the one
  that is there, before the body runs; leaving the \<^verbatim>\<open>with\<close> block closes the file, also
  when the body raised, and the exception goes on to the caller.
\<close>

definition write_univ ::
  "h5lib \<Rightarrow> (nat \<Rightarrow> string) \<Rightarrow> string \<Rightarrow> 'a ndarray \<Rightarrow> metadata \<Rightarrow> bool \<Rightarrow> string \<Rightarrow> int
     \<Rightarrow> 'a fs \<Rightarrow> error option \<times> 'a fs" where
  "write_univ lib now output_path image_data md create_pyramid_flag compression
              compression_level files =
     (case write_univ_body lib now image_data md create_pyramid_flag compression
             compression_level [] of
        (err, f) \<Rightarrow> (err, files(output_path \<mapsto> f)))"


section \<open>Routing (\<^verbatim>\<open>FormatConverterGUI._convert_file\<close> and \<^verbatim>\<open>_convert_batch\<close>)\<close>

text \<open>
  The parts of \<^verbatim>\<open>pathlib\<close> the routing uses, on paths with \<open>/\<close> as separator:
  \<^verbatim>\<open>Path.name\<close>, \<^verbatim>\<open>Path.suffix\<close> (from the last dot of the name, unless that dot is its
  first or last character) and \<^verbatim>\<open>Path.with_suffix\<close>, which raises ValueError on an
  empty name.
\<close>

definition path_name :: "string \<Rightarrow> string" where
  "path_name p = rev (takeWhile (\<lambda>c. c \<noteq> CHR ''/'') (rev p))"

definition path_suffix :: "string \<Rightarrow> string" where
  "path_suffix p =
     (let nm = path_name p;
          after = length (takeWhile (\<lambda>c. c \<noteq> CHR ''.'') (rev nm))
      in if after < length nm \<and> 0 < after \<and> after + 1 < length nm
         then drop (length nm - after - 1) nm
         else [])"

definition with_suffix :: "string \<Rightarrow> string \<Rightarrow> error + string" where
  "with_suffix p new_suffix =
     (if path_name p = [] then Inl ValueError
      else Inr (take (length p - length (path_suffix p)) p @ new_suffix))"

text \<open>
  The converters the routing calls are other modules of the repository. Each is taken
  as a parameter: from the input path, the output path and the files on disk it returns
  the exception it raised, if any (the wrappers raise RuntimeError when a converter
  returns False), and the files on disk afterwards. Directories are not tracked, so
  \<^verbatim>\<open>mkdir\<close> changes nothing here and \<^verbatim>\<open>is_dir\<close> is a parameter.
\<close>

type_synonym 'f files = "string \<rightharpoonup> 'f"

type_synonym 'f hop = "string \<Rightarrow> string \<Rightarrow> 'f files \<Rightarrow> error option \<times> 'f files"

record 'f converters =
  convert_univ_to_ometiff :: "'f hop"
  convert_univ_to_omezarr :: "'f hop"
  convert_ometiff_to_univ :: "'f hop"
  convert_omezarr_to_univ :: "'f hop"
  convert_univ_to_vsi :: "'f hop"
  convert_vsi_to_univ :: "'f hop"
  convert_vsi_to_ometiff :: "'f hop"
  convert_vsi_to_omezarr :: "'f hop"

text \<open>
  The two-step sequence, written out five times in the source with different converters:
  \<^verbatim>\<open>
  temp_univ = Path(output_path).with_suffix('.temp.univ')
  first(input_path, str(temp_univ))
  second(str(temp_univ), output_path)
  if temp_univ.exists():
      temp_univ.unlink()
  \<close>
  An exception of either call leaves the sequence at once.
\<close>

definition two_step :: "'f hop \<Rightarrow> 'f hop \<Rightarrow> 'f hop" where
  "two_step first second input_path output_path files =
     (case with_suffix output_path ''.temp.univ'' of
        Inl e \<Rightarrow> (Some e, files)
      | Inr temp_univ \<Rightarrow>
          (case first input_path temp_univ files of
             (Some e, files1) \<Rightarrow> (Some e, files1)
           | (None, files1) \<Rightarrow>
               (case second temp_univ output_path files1 of
                  (Some e, files2) \<Rightarrow> (Some e, files2)
                | (None, files2) \<Rightarrow>
                    (None, if files2 temp_univ \<noteq> None then files2(temp_univ := None)
                           else files2))))"

text \<open>
  The \<^verbatim>\<open>try\<close> block of \<^verbatim>\<open>_convert_file\<close> up to the check of the output. What follows it
  in the source (the checks that the output exists and has at least 1024 bytes, the
  \<^verbatim>\<open>except Exception\<close> handler, the \<^verbatim>\<open>finally\<close> block) reports to the user and
  changes no file, so the files returned here are the files when \<^verbatim>\<open>_convert_file\<close>
  returns.
\<close>

definition convert_file ::
  "'f converters \<Rightarrow> (string \<Rightarrow> bool) \<Rightarrow> string \<Rightarrow> string \<Rightarrow> string \<Rightarrow> 'f files
     \<Rightarrow> error option \<times> 'f files" where
  "convert_file cv is_dir input_path output_path output_format files =
     (if path_suffix input_path = ''.univ'' then
        (if output_format = ''ome-tiff''
           then convert_univ_to_ometiff cv input_path output_path files
         else if output_format = ''ome-zarr''
           then convert_univ_to_omezarr cv input_path output_path files
         else (Some ValueError, files))
      else if path_suffix input_path \<in> {''.tif'', ''.tiff''} \<or>
              contains ''.ome'' (path_name input_path) then
        (if output_format = ''univ''
           then convert_ometiff_to_univ cv input_path output_path files
         else if output_format = ''ome-zarr''
           then two_step (convert_ometiff_to_univ cv) (convert_univ_to_omezarr cv)
                  input_path output_path files
         else (Some ValueError, files))
      else if path_suffix input_path = ''.zarr'' \<or> is_dir input_path then
        (if output_format = ''univ''
           then convert_omezarr_to_univ cv input_path output_path files
         else if output_format = ''ome-tiff''
           then two_step (convert_omezarr_to_univ cv) (convert_univ_to_ometiff cv)
                  input_path output_path files
         else if output_format = ''vsi''
           then two_step (convert_omezarr_to_univ cv) (convert_univ_to_vsi cv)
                  input_path output_path files
         else (Some ValueError, files))
      else if path_suffix input_path = ''.vsi'' then
        (if output_format = ''univ''
           then convert_vsi_to_univ cv input_path output_path files
         else if output_format = ''ome-tiff''
           then convert_vsi_to_ometiff cv input_path output_path files
         else if output_format = ''ome-zarr''
           then convert_vsi_to_omezarr cv input_path output_path files
         else (Some ValueError, files))
      else (Some ValueError, files))"

text \<open>
  The conversion of one file inside the loop of \<^verbatim>\<open>_convert_batch\<close>, from the output
  path the loop has chosen. A pair of formats without a branch converts nothing and
  counts as a success; an exception is caught by the loop, which logs it, counts a
  failure and goes on to the next file.
\<close>

definition convert_batch_item ::
  "'f converters \<Rightarrow> (string \<Rightarrow> bool) \<Rightarrow> string \<Rightarrow> string \<Rightarrow> string \<Rightarrow> 'f files
     \<Rightarrow> error option \<times> 'f files" where
  "convert_batch_item cv is_dir input_path output_path output_format files =
     (if path_suffix input_path = ''.univ'' then
        (if output_format = ''ome-tiff''
           then convert_univ_to_ometiff cv input_path output_path files
         else if output_format = ''ome-zarr''
           then convert_univ_to_omezarr cv input_path output_path files
         else (None, files))
      else if path_suffix input_path \<in> {''.tif'', ''.tiff''} \<or>
              contains ''.ome'' (path_name input_path) then
        (if output_format = ''univ''
           then convert_ometiff_to_univ cv input_path output_path files
         else if output_format = ''ome-zarr''
           then two_step (convert_ometiff_to_univ cv) (convert_univ_to_omezarr cv)
                  input_path output_path files
         else (None, files))
      else if path_suffix input_path = ''.zarr'' \<or> is_dir input_path then
        (if output_format = ''univ''
           then convert_omezarr_to_univ cv input_path output_path files
         else if output_format = ''ome-tiff''
           then two_step (convert_omezarr_to_univ cv) (convert_univ_to_ometiff cv)
                  input_path output_path files
         else (None, files))
      else if path_suffix input_path = ''.vsi'' then
        (if output_format = ''univ''
           then convert_vsi_to_univ cv input_path output_path files
         else if output_format = ''ome-tiff''
           then convert_vsi_to_ometiff cv input_path output_path files
         else if output_format = ''ome-zarr''
           then convert_vsi_to_omezarr cv input_path output_path files
         else (None, files))
      else (None, files))"

section \<open>Concrete inputs\<close>

text \<open>
  Inputs for evaluating the functions above: \<^verbatim>\<open>np.zeros(shp)\<close>, an HDF5 library that
  accepts every dataset, the empty metadata dict, a clock that stands still, and a
  converter that writes one file at its output path, or fails without writing.
\<close>

definition zeros :: "nat list \<Rightarrow> nat ndarray" where
  "zeros shp = \<lparr> shape = shp, item = (\<lambda>idx. 0) \<rparr>"

definition arange :: "nat list \<Rightarrow> nat ndarray" where
  "arange shp = \<lparr> shape = shp, item = ravel shp \<rparr>"

definition accept_all :: h5lib where
  "accept_all nm shp chunks = True"

definition no_metadata :: metadata where
  "no_metadata = \<lparr> source_file = None, file_format = None, physical_size = None,
                    channel_names = None \<rparr>"

definition still_clock :: "nat \<Rightarrow> string" where
  "still_clock k = ''2024-01-01T00:00:00''"

definition writing_hop :: "nat hop" where
  "writing_hop input_path output_path files = (None, files(output_path \<mapsto> 1))"

definition failing_hop :: "nat hop" where
  "failing_hop input_path output_path files =
     (Some (RuntimeError ''conversion returned False - conversion failed''), files)"

definition test_converters :: "nat converters" where
  "test_converters =
     \<lparr> convert_univ_to_ometiff = failing_hop,
       convert_univ_to_omezarr = writing_hop,
       convert_ometiff_to_univ = writing_hop,
       convert_omezarr_to_univ = writing_hop,
       convert_univ_to_vsi = writing_hop,
       convert_vsi_to_univ = writing_hop,
       convert_vsi_to_ometiff = writing_hop,
       convert_vsi_to_omezarr = writing_hop \<rparr>"


section \<open>Properties of the axis normaliser\<close>

lemma ravel_lt: "list_all2 (<) idx shp \<Longrightarrow> shp \<noteq> [] \<Longrightarrow> ravel shp idx < prod_list shp"
proof (induction idx shp rule: list_all2_induct)
  case Nil then show ?case by simp
next
  case (Cons i js n ns)
  show ?case
  proof (cases "ns = []")
    case True with Cons show ?thesis by simp
  next
    case False
    with Cons have r: "ravel ns js < prod_list ns" by simp
    have "i * prod_list ns + ravel ns js < i * prod_list ns + prod_list ns" using r by simp
    also have "\<dots> = (Suc i) * prod_list ns" by simp
    also have "\<dots> \<le> n * prod_list ns" using Cons.hyps(1) by (intro mult_le_mono1) simp
    finally show ?thesis by simp
  qed
qed

lemma unravel_ravel: "list_all2 (<) idx shp \<Longrightarrow> unravel shp (ravel shp idx) = idx"
proof (induction idx shp rule: list_all2_induct)
  case Nil then show ?case by simp
next
  case (Cons i js n ns)
  show ?case
  proof (cases "ns = []")
    case True with Cons show ?thesis by simp
  next
    case False
    with Cons ravel_lt[of js ns] have r: "ravel ns js < prod_list ns" by simp
    then show ?thesis using Cons by simp
  qed
qed

lemma upt6: "[0 ..< 6] = [0, 1, 2, 3, 4, 5::nat]"
  by (simp add: upt_rec)

lemma ravel_merge:
  "ravel [t', c' * s', z', y', x'] [t, c * s' + s, z, y, x]
     = ravel [t', c', s', z', y', x'] [t, c, s, z, y, x]"
  by (simp add: algebra_simps)

text \<open>
  Claim C8. A rank-6 input of shape \<open>(T, C, Z, Y, X, S)\<close> is normalised to the rank-5
  array of shape \<open>(T, C * S, Z, Y, X)\<close> whose element at \<open>(t, c * S + s, z, y, x)\<close> is
  the input's element at \<open>(t, c, z, y, x, s)\<close>, for every index inside the shape.
\<close>

theorem sample_axis_fold:
  assumes "shape a = [T, C, Z, Y, X, S]"
  shows "\<exists>b. normalize_axes a = Inr b \<and> shape b = [T, C * S, Z, Y, X] \<and>
     (\<forall>t < T. \<forall>c < C. \<forall>z < Z. \<forall>y < Y. \<forall>x < X. \<forall>s < S.
        item b [t, c * S + s, z, y, x] = item a [t, c, z, y, x, s])"
proof -
  define tb where "tb = \<lparr> shape = map (\<lambda>i. shape a ! i) [0, 1, 5, 2, 3, 4],
       item = (\<lambda>idx. item a (map (\<lambda>j. idx ! index_of j [0, 1, 5, 2, 3, 4]) [0 ..< ndim a])) \<rparr>"
  define b where "b = \<lparr> shape = [T, C * S, Z, Y, X],
       item = (\<lambda>idx. item tb (unravel (shape tb) (ravel [T, C * S, Z, Y, X] idx))) \<rparr>"
  have tr: "transpose_nd [0, 1, 5, 2, 3, 4] a = Inr tb"
    using assms by (simp add: transpose_nd_def ndim_def upt6 tb_def)
  have sh: "shape tb = [T, C, S, Z, Y, X]"
    using assms by (simp add: tb_def)
  have it: "item tb [t, c, s, z, y, x] = item a [t, c, z, y, x, s]" for t c s z y x
    using assms by (simp add: tb_def ndim_def upt6)
  have rs: "reshape_nd [T, C * S, Z, Y, X] tb = Inr b"
    by (simp add: reshape_nd_def size_nd_def sh b_def algebra_simps)
  have norm: "normalize_axes a = Inr b"
    using assms tr rs by (simp add: normalize_axes_def ndim_def merge_samples_def)
  have el: "item b [t, c * S + s, z, y, x] = item a [t, c, z, y, x, s]"
    if "t < T" "c < C" "z < Z" "y < Y" "x < X" "s < S" for t c z y x s
  proof -
    have "list_all2 (<) [t, c, s, z, y, x] [T, C, S, Z, Y, X]"
      using that by simp
    then have "unravel [T, C, S, Z, Y, X] (ravel [T, C, S, Z, Y, X] [t, c, s, z, y, x])
                 = [t, c, s, z, y, x]"
      by (rule unravel_ravel)
    then have "unravel (shape tb) (ravel [T, C * S, Z, Y, X] [t, c * S + s, z, y, x])
                 = [t, c, s, z, y, x]"
      by (simp only: sh ravel_merge)
    then show ?thesis
      by (simp only: b_def ndarray.simps it)
  qed
  show ?thesis
    using norm el by (intro exI[of _ b]) (simp add: b_def)
qed

text \<open>The fold at an input of shape \<open>(1, 2, 1, 1, 2, 3)\<close> whose elements are their own indices.\<close>

theorem sample_axis_fold_witness:
  "\<exists>b. normalize_axes \<lparr> shape = [1, 2, 1, 1, 2, 3], item = (\<lambda>idx. idx) \<rparr> = Inr b \<and>
       shape b = [1, 6, 1, 1, 2] \<and> item b [0, 5, 0, 0, 1] = [0, 1, 0, 0, 1, 2::nat]"
proof -
  let ?a = "\<lparr> shape = [1, 2, 1, 1, 2, 3], item = (\<lambda>idx. idx) \<rparr> :: (nat list) ndarray"
  have "shape ?a = [1, 2, 1, 1, 2, 3]" by simp
  from sample_axis_fold [OF this] obtain b where
    n: "normalize_axes ?a = Inr b" and s: "shape b = [1, 2 * 3, 1, 1, 2]" and
    e: "\<forall>t<1. \<forall>c<2. \<forall>z<1. \<forall>y<1. \<forall>x<2. \<forall>s<3.
          item b [t, c * 3 + s, z, y, x] = item ?a [t, c, z, y, x, s]"
    by (elim exE conjE)
  from e [rule_format, of 0 1 0 0 1 2]
  have "item b [0, 1 * 3 + 2, 0, 0, 1] = item ?a [0, 1, 0, 0, 1, 2]" by simp
  with n s show ?thesis by simp
qed

section \<open>Properties of the pyramid builder\<close>

lemma stride2_shape:
  "5 \<le> ndim a \<Longrightarrow> stride_yx 2 2 a = Inr d \<Longrightarrow>
     shape d = (shape a)[3 := (shape a ! 3 + 1) div 2, 4 := (shape a ! 4 + 1) div 2]"
  by (auto simp: stride_yx_def slice_len_def)

lemma stride2_ndim: "stride_yx 2 2 a = Inr d \<Longrightarrow> ndim d = ndim a"
  by (auto simp: stride_yx_def ndim_def split: if_splits)

lemma pyramid_loop_chain:
  "pyramid_loop lib opts cur level f = (err, f') \<Longrightarrow> 5 \<le> ndim cur \<Longrightarrow>
     \<exists>new. f' = f @ new \<and> level_chain (shape cur) level new \<and>
       (err = None \<longrightarrow> min (last (shape cur # map dataset_shape new) ! 3)
                           (last (shape cur # map dataset_shape new) ! 4) \<le> 256)"
proof (induction lib opts cur level f arbitrary: err f' rule: pyramid_loop.induct)
  case (1 lib opts cur level f)
  show ?case
  proof (cases "256 < min (shape cur ! 3) (shape cur ! 4)")
    case False
    with "1.prems" have "err = None" "f' = f"
      by (auto simp: pyramid_loop.simps[of lib opts cur] split: if_splits)
    with False show ?thesis by auto
  next
    case big: True
    from "1.prems"(2) obtain d where d: "stride_yx 2 2 cur = Inr d"
      by (auto simp: stride_yx_def)
    have sd: "shape d = (shape cur)[3 := (shape cur ! 3 + 1) div 2, 4 := (shape cur ! 4 + 1) div 2]"
      using stride2_shape[OF "1.prems"(2) d] .
    have nd: "5 \<le> ndim d" using stride2_ndim[OF d] "1.prems"(2) by simp
    let ?nm = "''ImageData/Resolution_'' @ str_nat level"
    let ?ch = "Some [1, 1, 1, min 256 (shape d ! 3), min 256 (shape d ! 4)]"
    show ?thesis
    proof (cases "lib ?nm (shape d) ?ch")
      case False
      with "1.prems" big d have "err = Some H5Error" "f' = f"
        by (simp_all add: pyramid_loop.simps[of lib opts cur] create_dataset_def)
      then show ?thesis by simp
    next
      case True
      let ?e = "CreateDataset ?nm ?ch opts d"
      have cd: "create_dataset lib ?nm ?ch opts d f = (None, f @ [?e])"
        using True by (simp add: create_dataset_def)
      with "1.prems" big d have rec: "pyramid_loop lib opts d (level + 1) (f @ [?e]) = (err, f')"
        by (simp add: pyramid_loop.simps[of lib opts cur])
      from "1.IH"[OF _ big d cd[symmetric] refl rec nd] "1.prems"(2)
      obtain new where new: "f' = (f @ [?e]) @ new" "level_chain (shape d) (level + 1) new"
        "err = None \<longrightarrow> min (last (shape d # map dataset_shape new) ! 3)
                           (last (shape d # map dataset_shape new) ! 4) \<le> 256"
        by auto
      show ?thesis
        using new big sd by (intro exI[of _ "?e # new"]) simp
    qed
  qed
qed


lemma level_chain_nth:
  "level_chain [T, C, Z, Y, X] lv new \<Longrightarrow> k < length new \<Longrightarrow>
     event_path (new ! k) = ''ImageData/Resolution_'' @ str_nat (lv + k) \<and>
     256 < min (([T, C, Z, Y, X] # map dataset_shape new) ! k ! 3)
               (([T, C, Z, Y, X] # map dataset_shape new) ! k ! 4) \<and>
     ([T, C, Z, Y, X] # map dataset_shape new) ! Suc k =
       [T, C, Z, (([T, C, Z, Y, X] # map dataset_shape new) ! k ! 3 + 1) div 2,
                 (([T, C, Z, Y, X] # map dataset_shape new) ! k ! 4 + 1) div 2]"
proof (induction new arbitrary: Y X lv k)
  case Nil
  then show ?case by simp
next
  case (Cons e es)
  from Cons.prems(1) have
    big: "256 < min Y X" and
    nm: "event_path e = ''ImageData/Resolution_'' @ str_nat lv" and
    sh: "dataset_shape e = [T, C, Z, (Y + 1) div 2, (X + 1) div 2]" and
    rest: "level_chain [T, C, Z, (Y + 1) div 2, (X + 1) div 2] (Suc lv) es"
    by auto
  show ?case
  proof (cases k)
    case 0
    with big nm sh show ?thesis by simp
  next
    case (Suc j)
    with Cons.prems(2) have j: "j < length es" by simp
    from Cons.IH[OF rest j] Suc sh show ?thesis by simp
  qed
qed

text \<open>
  Claim C1, as the code has it. The levels that \<^verbatim>\<open>_create_pyramid\<close> writes for a base of
  shape \<open>(T, C, Z, Y, X)\<close> are named \<^verbatim>\<open>ImageData/Resolution_1\<close>, \<^verbatim>\<open>_2\<close>, ...; each is
  written because the level before it has both Y and X above 256, and has the extents
  \<open>(Yk + 1) div 2\<close> and \<open>(Xk + 1) div 2\<close> of that level (the length of the slice
  \<^verbatim>\<open>::2\<close>, which rounds up) with T, C and Z unchanged; and when the loop ends without
  an exception the last level has \<open>min(Y, X) \<le> 256\<close>.
\<close>

theorem pyramid_levels_halve:
  assumes "shape a = [T, C, Z, Y, X]"
    and "create_pyramid lib a compression compression_level f = (err, f')"
  shows "\<exists>new. f' = f @ new \<and>
     (let shs = shape a # map dataset_shape new in
        (\<forall>k<length new.
           event_path (new ! k) = ''ImageData/Resolution_'' @ str_nat (Suc k) \<and>
           256 < min (shs ! k ! 3) (shs ! k ! 4) \<and>
           shs ! Suc k = [T, C, Z, (shs ! k ! 3 + 1) div 2, (shs ! k ! 4 + 1) div 2]) \<and>
        (err = None \<longrightarrow> min (last shs ! 3) (last shs ! 4) \<le> 256))"
proof -
  have nd: "5 \<le> ndim a" using assms(1) by (simp add: ndim_def)
  from pyramid_loop_chain[OF assms(2)[unfolded create_pyramid_def] nd]
  obtain new where new: "f' = f @ new" "level_chain (shape a) 1 new"
    "err = None \<longrightarrow> min (last (shape a # map dataset_shape new) ! 3)
                       (last (shape a # map dataset_shape new) ! 4) \<le> 256"
    by blast
  have "\<forall>k<length new.
           event_path (new ! k) = ''ImageData/Resolution_'' @ str_nat (Suc k) \<and>
           256 < min ((shape a # map dataset_shape new) ! k ! 3)
                     ((shape a # map dataset_shape new) ! k ! 4) \<and>
           (shape a # map dataset_shape new) ! Suc k =
             [T, C, Z, ((shape a # map dataset_shape new) ! k ! 3 + 1) div 2,
                       ((shape a # map dataset_shape new) ! k ! 4 + 1) div 2]"
    using level_chain_nth[of T C Z Y X 1 new] new(2) assms(1) by simp
  with new(1,3) show ?thesis
    unfolding Let_def by blast
qed


section \<open>Properties of the writer\<close>

lemma str_nat_nonempty: "str_nat n \<noteq> []"
  by (subst str_nat.simps) simp

lemma digit_zero: "n < 10 \<Longrightarrow> ''0123456789'' ! n = CHR ''0'' \<longleftrightarrow> n = 0"
  by (auto simp: eval_nat_numeral less_Suc_eq)

lemma str_nat_zero: "str_nat n = ''0'' \<longleftrightarrow> n = 0"
proof (cases "n < 10")
  case True
  then show ?thesis by (subst str_nat.simps) (simp add: digit_zero)
next
  case False
  have "length (str_nat n) \<ge> 2"
    using False str_nat_nonempty[of "n div 10"]
    by (subst str_nat.simps) (cases "str_nat (n div 10)", simp_all)
  with False show ?thesis by auto
qed

lemma top_level_resolution: "top_level (''ImageData/Resolution_'' @ r) = ''ImageData''"
  by (simp add: top_level_def)

lemma chain_count:
  "level_chain [T, C, Z, Y, X] lv new \<Longrightarrow>
   min (last ([T, C, Z, Y, X] # map dataset_shape new) ! 3)
       (last ([T, C, Z, Y, X] # map dataset_shape new) ! 4) \<le> 256 \<Longrightarrow>
   (new = [] \<and> min Y X \<le> 256) \<or>
   (256 * 2 ^ (length new - 1) < min Y X \<and> min Y X \<le> 256 * 2 ^ length new)"
proof (induction new arbitrary: Y X lv)
  case Nil
  then show ?case by simp
next
  case (Cons e es)
  from Cons.prems(1) have
    big: "256 < min Y X" and
    sh: "dataset_shape e = [T, C, Z, (Y + 1) div 2, (X + 1) div 2]" and
    rest: "level_chain [T, C, Z, (Y + 1) div 2, (X + 1) div 2] (Suc lv) es"
    by auto
  have m: "min ((Y + 1) div 2) ((X + 1) div 2) = (min Y X + 1) div 2"
    by (simp add: min_def) linarith
  from Cons.prems(2) sh have
    "min (last ([T, C, Z, (Y + 1) div 2, (X + 1) div 2] # map dataset_shape es) ! 3)
         (last ([T, C, Z, (Y + 1) div 2, (X + 1) div 2] # map dataset_shape es) ! 4) \<le> 256"
    by simp
  from Cons.IH[OF rest this] show ?case
  proof
    assume "es = [] \<and> min ((Y + 1) div 2) ((X + 1) div 2) \<le> 256"
    with m big show ?thesis by simp linarith
  next
    assume a: "256 * 2 ^ (length es - 1) < min ((Y + 1) div 2) ((X + 1) div 2) \<and>
            min ((Y + 1) div 2) ((X + 1) div 2) \<le> 256 * 2 ^ length es"
    have es: "es \<noteq> []"
    proof
      assume "es = []"
      with a have "256 < min ((Y + 1) div 2) ((X + 1) div 2)"
        "min ((Y + 1) div 2) ((X + 1) div 2) \<le> 256" by simp_all
      then show False by linarith
    qed
    then have l: "length es = Suc (length es - 1)" by simp
    define p :: nat where "p = 2 ^ (length es - 1)"
    have pl: "(2::nat) ^ length es = 2 * p" by (subst l) (simp add: p_def)
    from a have "256 * p < min ((Y + 1) div 2) ((X + 1) div 2)"
      unfolding p_def by (rule conjunct1)
    moreover from a have "min ((Y + 1) div 2) ((X + 1) div 2) \<le> 256 * (2 * p)"
      unfolding pl by (rule conjunct2)
    ultimately have "256 * p < (min Y X + 1) div 2" "(min Y X + 1) div 2 \<le> 256 * (2 * p)"
      unfolding m .
    then have "256 * (2 * p) < min Y X" "min Y X \<le> 256 * (2 * (2 * p))" by linarith+
    then show ?thesis by (simp add: pl)
  qed
qed

lemma level_chain_ConsD:
  "level_chain s lv (e # es) \<Longrightarrow>
     event_path e = ''ImageData/Resolution_'' @ str_nat lv \<and>
     level_chain (dataset_shape e) (Suc lv) es"
  unfolding level_chain.simps by blast

lemma chain_paths:
  "level_chain s lv new \<Longrightarrow> 0 < lv \<Longrightarrow> e \<in> set new \<Longrightarrow>
     prefix ''ImageData/Resolution_'' (event_path e) \<and>
     event_path e \<noteq> ''ImageData/Resolution_0'' \<and>
     top_level (event_path e) = ''ImageData''"
proof (induction new arbitrary: s lv)
  case Nil
  then show ?case by simp
next
  case (Cons x xs)
  note d = level_chain_ConsD[OF Cons.prems(1)]
  show ?case
  proof (cases "e = x")
    case True
    with d have p: "event_path e = ''ImageData/Resolution_'' @ str_nat lv" by blast
    have "str_nat lv \<noteq> ''0''" using str_nat_zero[of lv] Cons.prems(2) by simp
    then have "event_path e \<noteq> ''ImageData/Resolution_0''" unfolding p by simp
    moreover have "prefix ''ImageData/Resolution_'' (event_path e)" unfolding p by simp
    moreover have "top_level (event_path e) = ''ImageData''"
      unfolding p by (rule top_level_resolution)
    ultimately show ?thesis by blast
  next
    case False
    with Cons.prems(3) have "e \<in> set xs" by simp
    moreover from d have "level_chain (dataset_shape x) (Suc lv) xs" by blast
    ultimately show ?thesis using Cons.IH[of "dataset_shape x" "Suc lv"] by blast
  qed
qed

lemma chain_levels: "level_chain s lv new \<Longrightarrow> 0 < lv \<Longrightarrow> pyramid_levels new = new"
  unfolding pyramid_levels_def using chain_paths[of s lv new] by (intro filter_True) blast

lemma create_dataset_cases:
  "create_dataset lib nm ch opts d f = (err, f') \<Longrightarrow>
     (err = None \<and> f' = f @ [CreateDataset nm ch opts d]) \<or> (err = Some H5Error \<and> f' = f)"
  by (auto simp: create_dataset_def split: if_splits)

lemma thumbnail_events:
  assumes "create_thumbnail lib a f = (err, f')"
  shows "\<exists>new. f' = f @ new \<and> (\<forall>e\<in>set new. event_path e = ''Thumbnail'') \<and>
           (err = None \<longrightarrow> length new = 1) \<and> (err \<noteq> None \<longrightarrow> new = [])"
proof -
  have "(err \<noteq> None \<and> f' = f) \<or>
        (\<exists>d. create_dataset lib ''Thumbnail'' None [(''compression'', StrV ''gzip'')] d f = (err, f'))"
    using assms unfolding create_thumbnail_def Let_def
    by (auto split: if_splits sum.splits)
  then show ?thesis
  proof
    assume "err \<noteq> None \<and> f' = f"
    then show ?thesis by simp
  next
    assume "\<exists>d. create_dataset lib ''Thumbnail'' None [(''compression'', StrV ''gzip'')] d f = (err, f')"
    then obtain d where "create_dataset lib ''Thumbnail'' None [(''compression'', StrV ''gzip'')] d f = (err, f')"
      by blast
    from create_dataset_cases[OF this] show ?thesis by auto
  qed
qed

lemma top_level_metadata:
  "top_level ''Metadata'' = ''Metadata''"
  "top_level (''Metadata/'' @ r) = ''Metadata''"
  "top_level ''Provenance'' = ''Provenance''"
  "top_level (''Provenance/'' @ r) = ''Provenance''"
  "top_level ''Thumbnail'' = ''Thumbnail''"
  "top_level ''/'' = []"
  by (simp_all add: top_level_def)

lemma append_block:
  "f' = f @ a @ b \<Longrightarrow> \<forall>e\<in>set a. P e \<Longrightarrow> \<forall>e\<in>set b. P e \<Longrightarrow> a \<noteq> [] \<Longrightarrow>
     \<exists>new. f' = f @ new \<and> new \<noteq> [] \<and> (\<forall>e\<in>set new. P e)"
  by (intro exI[of _ "a @ b"]) auto

lemma metadata_events:
  assumes "write_metadata now md shp f = (err, f')"
  shows "\<exists>new. f' = f @ new \<and> new \<noteq> [] \<and> (\<forall>e\<in>set new. top_level (event_path e) = ''Metadata'')"
proof -
  let ?dims = "[CreateGroup ''Metadata'', CreateGroup ''Metadata/Dimensions''] @
                 map (\<lambda>(k, key). SetAttr ''Metadata/Dimensions'' key (IntV (int (shp ! k))))
                   (take (length shp)
                      (enumerate 0 [''SizeT'', ''SizeC'', ''SizeZ'', ''SizeY'', ''SizeX'']))"
  have dims: "\<forall>e\<in>set ?dims. top_level (event_path e) = ''Metadata''"
    by (auto simp: top_level_def)
  show ?thesis
  proof (cases "length shp < 5")
    case True
    with assms have "f' = f @ ?dims @ []" by (simp add: write_metadata_def Let_def)
    moreover have "?dims \<noteq> []" by simp
    ultimately show ?thesis using append_block[of f' f ?dims "[]", OF _ dims] by simp
  next
    case False
    let ?rest = "[SetAttr ''Metadata/Dimensions'' ''DimensionOrder'' (StrV ''TCZYX'')] @
            (case physical_size md of
               None \<Rightarrow> []
             | Some phys_data \<Rightarrow>
                 [CreateGroup ''Metadata/PhysicalSize'',
                  SetAttr ''Metadata/PhysicalSize'' ''X'' (FloatV (get_or (phys_X phys_data) 1)),
                  SetAttr ''Metadata/PhysicalSize'' ''Y'' (FloatV (get_or (phys_Y phys_data) 1)),
                  SetAttr ''Metadata/PhysicalSize'' ''Z'' (FloatV (get_or (phys_Z phys_data) 1)),
                  SetAttr ''Metadata/PhysicalSize'' ''Unit''
                    (StrV (get_or (phys_unit phys_data) micrometre))]) @
            [CreateGroup ''Metadata/Source'',
             SetAttr ''Metadata/Source'' ''OriginalFile''
               (StrV (get_or (source_file md) ''unknown'')),
             SetAttr ''Metadata/Source'' ''OriginalFormat''
               (StrV (get_or (file_format md) ''VSI'')),
             SetAttr ''Metadata/Source'' ''ConversionDate'' (StrV (now 0))] @
            (case channel_names md of
               None \<Rightarrow> []
             | Some names \<Rightarrow>
                 if names = [] then []
                 else CreateGroup ''Metadata/Channels'' #
                      map (\<lambda>(i, nm). SetAttr ''Metadata/Channels'' (''Channel_'' @ str_nat i)
                                         (StrV nm))
                        (enumerate 0 names))"
    from False assms have r: "f' = f @ ?dims @ ?rest"
      by (simp add: write_metadata_def Let_def)
    have rest: "\<forall>e\<in>set ?rest. top_level (event_path e) = ''Metadata''"
      by (auto simp: top_level_def split: option.splits)
    have "?dims \<noteq> []" by simp
    from append_block[OF r dims rest this] show ?thesis .
  qed
qed

lemma provenance_events:
  "write_provenance now md f = (err, f') \<Longrightarrow>
     err = None \<and> (\<exists>new. f' = f @ new \<and> new \<noteq> [] \<and>
        (\<forall>e\<in>set new. top_level (event_path e) = ''Provenance''))"
  by (auto simp: write_provenance_def top_level_def)

lemma schema_events:
  "write_schema f = (err, f') \<Longrightarrow>
     err = None \<and> f' = f @ [SetAttr ''/'' ''format'' (StrV ''univ''),
           SetAttr ''/'' ''version'' (StrV ''1.0''),
           SetAttr ''/'' ''schema_version'' (StrV ''1.0'')]"
  by (auto simp: write_schema_def)

lemma and_then_None:
  "and_then r g = (None, f) \<longleftrightarrow> (\<exists>f1. r = (None, f1) \<and> g f1 = (None, f))"
  by (cases r) (auto simp: and_then_def split: option.splits)

lemma write_univ_body_stages:
  assumes "write_univ_body lib now a md flag cmp lvl [] = (None, f)"
  obtains f1 f2 f3 f4 f5 where
    "5 \<le> ndim a" "size_nd a \<noteq> 0"
    "create_dataset lib ''ImageData/Resolution_0''
       (Some [1, 1, min 5 (shape a ! 2), min 512 (shape a ! 3), min 512 (shape a ! 4)])
       (comp_opts cmp lvl) a [] = (None, f1)"
    "(if flag \<and> 512 < min (shape a ! 3) (shape a ! 4)
      then create_pyramid lib a cmp lvl f1 else (None, f1)) = (None, f2)"
    "create_thumbnail lib a f2 = (None, f3)"
    "write_metadata now md (shape a) f3 = (None, f4)"
    "write_provenance now md f4 = (None, f5)"
    "write_schema f5 = (None, f)"
proof -
  have nd: "5 \<le> ndim a"
  proof (rule ccontr)
    assume "\<not> 5 \<le> ndim a"
    with assms show False by (simp add: write_univ_body_def)
  qed
  then have "\<not> ndim a < 5" by simp
  with assms have "and_then
       (create_dataset lib ''ImageData/Resolution_0''
         (Some [1, 1, min 5 (shape a ! 2), min 512 (shape a ! 3), min 512 (shape a ! 4)])
         (comp_opts cmp lvl) a [])
       (\<lambda>f. if size_nd a = 0
            then (Some (RuntimeError ''Failed to write image data - dataset is empty''), f)
            else and_then
                  (if flag \<and> 512 < min (shape a ! 3) (shape a ! 4)
                   then create_pyramid lib a cmp lvl f else (None, f))
                  (\<lambda>f. and_then (create_thumbnail lib a f)
                        (\<lambda>f. and_then (write_metadata now md (shape a) f)
                              (\<lambda>f. and_then (write_provenance now md f) write_schema)))) =
      (None, f)"
    unfolding write_univ_body_def Let_def by (simp only: if_False)
  then obtain f1 where
    c1: "create_dataset lib ''ImageData/Resolution_0''
         (Some [1, 1, min 5 (shape a ! 2), min 512 (shape a ! 3), min 512 (shape a ! 4)])
         (comp_opts cmp lvl) a [] = (None, f1)" and
    g1: "(if size_nd a = 0
            then (Some (RuntimeError ''Failed to write image data - dataset is empty''), f1)
            else and_then
                  (if flag \<and> 512 < min (shape a ! 3) (shape a ! 4)
                   then create_pyramid lib a cmp lvl f1 else (None, f1))
                  (\<lambda>f. and_then (create_thumbnail lib a f)
                        (\<lambda>f. and_then (write_metadata now md (shape a) f)
                              (\<lambda>f. and_then (write_provenance now md f) write_schema)))) =
      (None, f)"
    unfolding and_then_None by blast
  from g1 have nz: "size_nd a \<noteq> 0"
    by (auto split: if_splits)
  with g1 have "and_then
                  (if flag \<and> 512 < min (shape a ! 3) (shape a ! 4)
                   then create_pyramid lib a cmp lvl f1 else (None, f1))
                  (\<lambda>f. and_then (create_thumbnail lib a f)
                        (\<lambda>f. and_then (write_metadata now md (shape a) f)
                              (\<lambda>f. and_then (write_provenance now md f) write_schema))) =
      (None, f)"
    by (simp only: if_False)
  then obtain f2 f3 f4 f5 where
    "(if flag \<and> 512 < min (shape a ! 3) (shape a ! 4)
      then create_pyramid lib a cmp lvl f1 else (None, f1)) = (None, f2)"
    "create_thumbnail lib a f2 = (None, f3)"
    "write_metadata now md (shape a) f3 = (None, f4)"
    "write_provenance now md f4 = (None, f5)"
    "write_schema f5 = (None, f)"
    unfolding and_then_None by blast
  with nd nz c1 that show thesis by blast
qed

lemma write_univ_body_layout:
  assumes "write_univ_body lib now a md flag cmp lvl [] = (None, f)"
  obtains base pyr th meta prov where
    "f = (base # pyr) @ [th] @ meta @ prov @
           [SetAttr ''/'' ''format'' (StrV ''univ''),
            SetAttr ''/'' ''version'' (StrV ''1.0''),
            SetAttr ''/'' ''schema_version'' (StrV ''1.0'')]"
    "event_path base = ''ImageData/Resolution_0''"
    "level_chain (shape a) 1 pyr"
    "flag \<and> 512 < min (shape a ! 3) (shape a ! 4) \<longrightarrow>
       min (last (shape a # map dataset_shape pyr) ! 3)
           (last (shape a # map dataset_shape pyr) ! 4) \<le> 256"
    "\<not> (flag \<and> 512 < min (shape a ! 3) (shape a ! 4)) \<longrightarrow> pyr = []"
    "event_path th = ''Thumbnail''"
    "meta \<noteq> []" "\<forall>e\<in>set meta. top_level (event_path e) = ''Metadata''"
    "prov \<noteq> []" "\<forall>e\<in>set prov. top_level (event_path e) = ''Provenance''"
proof -
  from assms obtain f1 f2 f3 f4 f5 where
    nd: "5 \<le> ndim a" and
    s1: "create_dataset lib ''ImageData/Resolution_0''
       (Some [1, 1, min 5 (shape a ! 2), min 512 (shape a ! 3), min 512 (shape a ! 4)])
       (comp_opts cmp lvl) a [] = (None, f1)" and
    s2: "(if flag \<and> 512 < min (shape a ! 3) (shape a ! 4)
      then create_pyramid lib a cmp lvl f1 else (None, f1)) = (None, f2)" and
    s3: "create_thumbnail lib a f2 = (None, f3)" and
    s4: "write_metadata now md (shape a) f3 = (None, f4)" and
    s5: "write_provenance now md f4 = (None, f5)" and
    s6: "write_schema f5 = (None, f)"
    by (rule write_univ_body_stages)
  define base where "base = CreateDataset ''ImageData/Resolution_0''
       (Some [1, 1, min 5 (shape a ! 2), min 512 (shape a ! 3), min 512 (shape a ! 4)])
       (comp_opts cmp lvl) a"
  from create_dataset_cases[OF s1] have f1: "f1 = [base]" by (simp add: base_def)
  have bp: "event_path base = ''ImageData/Resolution_0''" by (simp add: base_def)
  obtain pyr where f2: "f2 = f1 @ pyr" and ch: "level_chain (shape a) 1 pyr"
    and fin: "flag \<and> 512 < min (shape a ! 3) (shape a ! 4) \<longrightarrow>
       min (last (shape a # map dataset_shape pyr) ! 3)
           (last (shape a # map dataset_shape pyr) ! 4) \<le> 256"
    and skip: "\<not> (flag \<and> 512 < min (shape a ! 3) (shape a ! 4)) \<longrightarrow> pyr = []"
  proof (cases "flag \<and> 512 < min (shape a ! 3) (shape a ! 4)")
    case True
    with s2 have "pyramid_loop lib (comp_opts cmp lvl) a 1 f1 = (None, f2)"
      by (simp add: create_pyramid_def)
    from pyramid_loop_chain[OF this nd] that True show thesis by blast
  next
    case False
    with s2 have "(None, f1) = (None :: error option, f2)" by (simp only: if_False)
    then have e: "f2 = f1 @ []" by simp
    show thesis
    proof (rule that[of "[]"])
      show "f2 = f1 @ []" by (rule e)
      show "level_chain (shape a) 1 []" by simp
      show "flag \<and> 512 < min (shape a ! 3) (shape a ! 4) \<longrightarrow>
            min (last (shape a # map dataset_shape []) ! 3)
                (last (shape a # map dataset_shape []) ! 4) \<le> 256"
        using False by blast
      show "\<not> (flag \<and> 512 < min (shape a ! 3) (shape a ! 4)) \<longrightarrow> [] = []" by simp
    qed
  qed
  from thumbnail_events[OF s3] obtain th where f3: "f3 = f2 @ [th]"
    and thp: "event_path th = ''Thumbnail''"
    by (auto simp: length_Suc_conv)
  from metadata_events[OF s4] obtain meta where f4: "f4 = f3 @ meta" and
    m: "meta \<noteq> []" "\<forall>e\<in>set meta. top_level (event_path e) = ''Metadata''"
    by blast
  from provenance_events[OF s5] obtain prov where f5: "f5 = f4 @ prov" and
    p: "prov \<noteq> []" "\<forall>e\<in>set prov. top_level (event_path e) = ''Provenance''"
    by blast
  from schema_events[OF s6] have f: "f = f5 @ [SetAttr ''/'' ''format'' (StrV ''univ''),
            SetAttr ''/'' ''version'' (StrV ''1.0''),
            SetAttr ''/'' ''schema_version'' (StrV ''1.0'')]"
    by blast
  have "f = (base # pyr) @ [th] @ meta @ prov @
           [SetAttr ''/'' ''format'' (StrV ''univ''),
            SetAttr ''/'' ''version'' (StrV ''1.0''),
            SetAttr ''/'' ''schema_version'' (StrV ''1.0'')]"
    unfolding f f5 f4 f3 f2 f1 by simp
  from that[OF this bp ch fin skip thp m p] show thesis by blast
qed

lemma and_thenE:
  assumes "and_then r g = (err, f)"
  obtains (fail) e where "r = (Some e, f)" "err = Some e"
        | (ok) f1 where "r = (None, f1)" "g f1 = (err, f)"
  using assms by (cases r) (auto simp: and_then_def split: option.splits)

lemma levels_append_other:
  "\<forall>e\<in>set new. top_level (event_path e) \<noteq> ''ImageData'' \<Longrightarrow>
     pyramid_levels (f @ new) = pyramid_levels f"
proof -
  assume a: "\<forall>e\<in>set new. top_level (event_path e) \<noteq> ''ImageData''"
  have "\<not> prefix ''ImageData/Resolution_'' (event_path e)" if "e \<in> set new" for e
  proof
    assume "prefix ''ImageData/Resolution_'' (event_path e)"
    then obtain r where "event_path e = ''ImageData/Resolution_'' @ r"
      by (auto simp: prefix_def)
    then have "top_level (event_path e) = ''ImageData''"
      by (simp only: top_level_resolution)
    with a that show False by blast
  qed
  then have "filter (\<lambda>e. prefix ''ImageData/Resolution_'' (event_path e) \<and>
                 event_path e \<noteq> ''ImageData/Resolution_0'') new = []"
    by (simp add: filter_empty_conv)
  then show ?thesis by (simp add: pyramid_levels_def)
qed

lemma base_keep:
  "create_dataset lib ''ImageData/Resolution_0'' ch opts d f = (e, f') \<Longrightarrow>
     pyramid_levels f' = pyramid_levels f"
  by (auto simp: create_dataset_def pyramid_levels_def split: if_splits)

lemma thumbnail_keep:
  assumes "create_thumbnail lib a f = (e, f')"
  shows "pyramid_levels f' = pyramid_levels f"
proof -
  from thumbnail_events[OF assms] obtain new where
    n: "f' = f @ new" "\<forall>e\<in>set new. event_path e = ''Thumbnail''" by blast
  from n(2) have "\<forall>e\<in>set new. top_level (event_path e) \<noteq> ''ImageData''"
    by (simp add: top_level_def)
  from levels_append_other[OF this] n(1) show ?thesis by simp
qed

lemma metadata_keep:
  assumes "write_metadata now md shp f = (e, f')"
  shows "pyramid_levels f' = pyramid_levels f"
proof -
  from metadata_events[OF assms] obtain new where
    n: "f' = f @ new" "\<forall>e\<in>set new. top_level (event_path e) = ''Metadata''" by blast
  from n(2) have "\<forall>e\<in>set new. top_level (event_path e) \<noteq> ''ImageData''" by simp
  from levels_append_other[OF this] n(1) show ?thesis by simp
qed

lemma provenance_keep:
  assumes "write_provenance now md f = (e, f')"
  shows "pyramid_levels f' = pyramid_levels f"
proof -
  from provenance_events[OF assms] obtain new where
    n: "f' = f @ new" "\<forall>e\<in>set new. top_level (event_path e) = ''Provenance''" by blast
  from n(2) have "\<forall>e\<in>set new. top_level (event_path e) \<noteq> ''ImageData''" by simp
  from levels_append_other[OF this] n(1) show ?thesis by simp
qed

lemma schema_keep:
  "write_schema f = (e, f') \<Longrightarrow> pyramid_levels f' = pyramid_levels f"
  by (auto simp: write_schema_def pyramid_levels_def)

lemma tail_keep:
  assumes "and_then (create_thumbnail lib a f2)
             (\<lambda>f. and_then (write_metadata now md shp f)
                (\<lambda>f. and_then (write_provenance now md f) write_schema)) = (err, f)"
  shows "pyramid_levels f = pyramid_levels f2"
  using assms
proof (cases rule: and_thenE)
  case (fail e)
  then show ?thesis by (simp add: thumbnail_keep)
next
  case (ok f3)
  note t = thumbnail_keep[OF ok(1)]
  from ok(2) show ?thesis
  proof (cases rule: and_thenE)
    case (fail e)
    then show ?thesis using t by (simp add: metadata_keep)
  next
    case (ok f4)
    note m = metadata_keep[OF ok(1)]
    from ok(2) show ?thesis
    proof (cases rule: and_thenE)
      case (fail e)
      then show ?thesis using t m by (simp add: provenance_keep)
    next
      case (ok f5)
      from provenance_keep[OF ok(1)] schema_keep[OF ok(2)] t m show ?thesis by simp
    qed
  qed
qed

lemma no_levels_without_gate:
  assumes "\<not> (flag \<and> 512 < min (shape a ! 3) (shape a ! 4))"
    and "write_univ_body lib now a md flag cmp lvl [] = (err, f)"
  shows "pyramid_levels f = []"
proof (cases "ndim a < 5")
  case True
  with assms(2) show ?thesis by (simp add: write_univ_body_def pyramid_levels_def)
next
  case False
  with assms(2) have "and_then
       (create_dataset lib ''ImageData/Resolution_0''
         (Some [1, 1, min 5 (shape a ! 2), min 512 (shape a ! 3), min 512 (shape a ! 4)])
         (comp_opts cmp lvl) a [])
       (\<lambda>f. if size_nd a = 0
            then (Some (RuntimeError ''Failed to write image data - dataset is empty''), f)
            else and_then
                  (if flag \<and> 512 < min (shape a ! 3) (shape a ! 4)
                   then create_pyramid lib a cmp lvl f else (None, f))
                  (\<lambda>f. and_then (create_thumbnail lib a f)
                        (\<lambda>f. and_then (write_metadata now md (shape a) f)
                              (\<lambda>f. and_then (write_provenance now md f) write_schema)))) =
      (err, f)"
    unfolding write_univ_body_def Let_def by (simp only: if_False)
  then show ?thesis
  proof (cases rule: and_thenE)
    case (fail e)
    from base_keep[OF fail(1)] show ?thesis by (simp add: pyramid_levels_def)
  next
    case (ok f1)
    from base_keep[OF ok(1)] have p1: "pyramid_levels f1 = []" by (simp add: pyramid_levels_def)
    show ?thesis
    proof (cases "size_nd a = 0")
      case True
      with ok(2) p1 show ?thesis by simp
    next
      case False
      with ok(2) assms(1) have "and_then (None, f1)
                  (\<lambda>f. and_then (create_thumbnail lib a f)
                        (\<lambda>f. and_then (write_metadata now md (shape a) f)
                              (\<lambda>f. and_then (write_provenance now md f) write_schema))) =
            (err, f)"
        by (simp only: if_False)
      then have "and_then (create_thumbnail lib a f1)
                        (\<lambda>f. and_then (write_metadata now md (shape a) f)
                              (\<lambda>f. and_then (write_provenance now md f) write_schema)) =
            (err, f)"
        by (simp add: and_then_def)
      from tail_keep[OF this] p1 show ?thesis by simp
    qed
  qed
qed

lemma levels_of_layout:
  assumes "write_univ_body lib now a md flag cmp lvl [] = (None, f)"
  obtains pyr where "pyramid_levels f = pyr" "level_chain (shape a) 1 pyr"
    "flag \<and> 512 < min (shape a ! 3) (shape a ! 4) \<longrightarrow>
       min (last (shape a # map dataset_shape pyr) ! 3)
           (last (shape a # map dataset_shape pyr) ! 4) \<le> 256"
proof -
  from assms obtain base pyr th meta prov where
    f: "f = (base # pyr) @ [th] @ meta @ prov @
           [SetAttr ''/'' ''format'' (StrV ''univ''),
            SetAttr ''/'' ''version'' (StrV ''1.0''),
            SetAttr ''/'' ''schema_version'' (StrV ''1.0'')]" and
    bp: "event_path base = ''ImageData/Resolution_0''" and
    ch: "level_chain (shape a) 1 pyr" and
    fin: "flag \<and> 512 < min (shape a ! 3) (shape a ! 4) \<longrightarrow>
       min (last (shape a # map dataset_shape pyr) ! 3)
           (last (shape a # map dataset_shape pyr) ! 4) \<le> 256" and
    skip: "\<not> (flag \<and> 512 < min (shape a ! 3) (shape a ! 4)) \<longrightarrow> pyr = []" and
    thp: "event_path th = ''Thumbnail''" and
    mne: "meta \<noteq> []" and
    m: "\<forall>e\<in>set meta. top_level (event_path e) = ''Metadata''" and
    pne: "prov \<noteq> []" and
    p: "\<forall>e\<in>set prov. top_level (event_path e) = ''Provenance''"
    by (rule write_univ_body_layout)
  let ?rest = "[th] @ meta @ prov @
           [SetAttr ''/'' ''format'' (StrV ''univ''),
            SetAttr ''/'' ''version'' (StrV ''1.0''),
            SetAttr ''/'' ''schema_version'' (StrV ''1.0'')]"
  have "\<forall>e\<in>set ?rest. top_level (event_path e) \<noteq> ''ImageData''"
    using thp m p by (auto simp: top_level_def)
  from levels_append_other[OF this, of "base # pyr"]
  have "pyramid_levels f = pyramid_levels (base # pyr)" unfolding f .
  also have "\<dots> = pyramid_levels pyr" using bp by (simp add: pyramid_levels_def)
  also have "\<dots> = pyr" using chain_levels[OF ch] by simp
  finally show thesis using that ch fin by blast
qed

text \<open>
  Claim C7, as the code has it. For a base of shape \<open>(T, C, Z, Y, X)\<close> the writer leaves
  a file at the output path, on every exit path. With \<open>min(Y, X) \<le> 512\<close> the file has
  no pyramid level, whatever the caller asked for. When the write succeeds with the
  pyramid requested and \<open>min(Y, X) > 512\<close>, the number \<open>n\<close> of levels is at least 1
  and satisfies \<open>256 * 2^(n-1) < min(Y, X) \<le> 256 * 2^n\<close>: it is the ceiling, not the
  floor, of \<open>log2(min(Y, X) / 256)\<close>.
\<close>

theorem pyramid_gate_and_depth:
  assumes "shape a = [T, C, Z, Y, X]"
    and "write_univ lib now output_path a md flag cmp lvl files = (err, files')"
  shows "\<exists>f. files' output_path = Some f \<and>
     (min Y X \<le> 512 \<longrightarrow> pyramid_levels f = []) \<and>
     (err = None \<and> flag \<and> 512 < min Y X \<longrightarrow>
        0 < length (pyramid_levels f) \<and>
        256 * 2 ^ (length (pyramid_levels f) - 1) < min Y X \<and>
        min Y X \<le> 256 * 2 ^ length (pyramid_levels f))"
proof -
  obtain e f where b: "write_univ_body lib now a md flag cmp lvl [] = (e, f)"
    by (cases "write_univ_body lib now a md flag cmp lvl []") auto
  with assms(2) have r: "err = e" "files' = files(output_path \<mapsto> f)"
    by (simp_all add: write_univ_def)
  have s3: "shape a ! 3 = Y" and s4: "shape a ! 4 = X" using assms(1) by simp_all
  have small: "pyramid_levels f = []" if "min Y X \<le> 512"
  proof -
    from that have "\<not> (flag \<and> 512 < min (shape a ! 3) (shape a ! 4))"
      unfolding s3 s4 by auto
    from no_levels_without_gate[OF this b] show ?thesis .
  qed
  have big: "0 < length (pyramid_levels f) \<and>
        256 * 2 ^ (length (pyramid_levels f) - 1) < min Y X \<and>
        min Y X \<le> 256 * 2 ^ length (pyramid_levels f)"
    if g: "err = None \<and> flag \<and> 512 < min Y X"
  proof -
    from g r(1) b have b': "write_univ_body lib now a md flag cmp lvl [] = (None, f)" by simp
    from g have gate: "flag \<and> 512 < min (shape a ! 3) (shape a ! 4)" unfolding s3 s4 by blast
    from b' obtain pyr where pl: "pyramid_levels f = pyr" and
      ch: "level_chain (shape a) 1 pyr" and
      fin: "flag \<and> 512 < min (shape a ! 3) (shape a ! 4) \<longrightarrow>
       min (last (shape a # map dataset_shape pyr) ! 3)
           (last (shape a # map dataset_shape pyr) ! 4) \<le> 256"
      by (rule levels_of_layout)
    from fin gate have fin': "min (last (shape a # map dataset_shape pyr) ! 3)
           (last (shape a # map dataset_shape pyr) ! 4) \<le> 256" by blast
    from chain_count[OF ch[unfolded assms(1)] fin'[unfolded assms(1)]]
    have "(pyr = [] \<and> min Y X \<le> 256) \<or>
          (256 * 2 ^ (length pyr - 1) < min Y X \<and> min Y X \<le> 256 * 2 ^ length pyr)" .
    moreover from g have "\<not> min Y X \<le> 256" by linarith
    ultimately have c: "256 * 2 ^ (length pyr - 1) < min Y X" "min Y X \<le> 256 * 2 ^ length pyr"
      by blast+
    have "pyr \<noteq> []"
    proof
      assume "pyr = []"
      with c(2) have "min Y X \<le> 256" by simp
      with g show False by linarith
    qed
    with c pl show ?thesis by simp
  qed
  from r(2) small big show ?thesis by (intro exI[of _ f]) auto
qed

text \<open>The definitions that evaluate the writer on a concrete input.\<close>

lemmas eval_defs = write_univ_def write_univ_body_def and_then_def create_dataset_def
  accept_all_def zeros_def ndim_def size_nd_def create_pyramid_def pyramid_loop.simps
  stride_yx_def slice_len_def create_thumbnail_def first_plane_def write_metadata_def
  write_provenance_def write_schema_def Let_def no_metadata_def comp_opts_def insert_axis_def

lemma spec_level_count_513: "spec_level_count 513 = 1"
proof -
  have "(1::real) \<le> log 2 (513 / 256)"
    by (subst le_log_iff) simp_all
  moreover have "log 2 (513 / 256) < (2::real)"
    by (subst log_less_iff) simp_all
  ultimately have "\<lfloor>log 2 (513 / 256 :: real)\<rfloor> = 1"
    by (simp add: floor_eq_iff)
  then show ?thesis by (simp add: spec_level_count_def)
qed

lemma written_group_top:
  "top_level (event_path e) = g \<Longrightarrow> g \<noteq> [] \<Longrightarrow> written_group e = g"
  by (auto simp: written_group_def top_level_def)

lemma attr_of_other: "event_path e \<noteq> p \<Longrightarrow> attr_of p e = []"
  by (cases e) auto

lemma attrs_of_append: "attrs_of p (xs @ ys) = attrs_of p xs @ attrs_of p ys"
  by (simp add: attrs_of_def)

lemma attrs_of_none: "\<forall>e\<in>set xs. event_path e \<noteq> p \<Longrightarrow> attrs_of p xs = []"
  by (induction xs) (simp_all add: attrs_of_def attr_of_other)

lemma root_not_top: "top_level (event_path e) = g \<Longrightarrow> g \<noteq> [] \<Longrightarrow> event_path e \<noteq> ''/''"
  by (auto simp: top_level_def)

lemma remdups_adj_block:
  "xs \<noteq> [] \<Longrightarrow> \<forall>e\<in>set xs. g e = x \<Longrightarrow> ys \<noteq> [] \<Longrightarrow> g (hd ys) \<noteq> x \<Longrightarrow>
     remdups_adj (map g (xs @ ys)) = x # remdups_adj (map g ys)"
proof (induction xs)
  case Nil
  then show ?case by simp
next
  case (Cons a as)
  show ?case
  proof (cases "as = []")
    case True
    with Cons.prems show ?thesis by (cases ys) auto
  next
    case False
    with Cons have "remdups_adj (map g (as @ ys)) = x # remdups_adj (map g ys)" by simp
    moreover from False obtain b bs where "as = b # bs" by (cases as) auto
    ultimately show ?thesis using Cons.prems(2) by simp
  qed
qed

lemma remdups_adj_const:
  "xs \<noteq> [] \<Longrightarrow> \<forall>e\<in>set xs. g e = x \<Longrightarrow> remdups_adj (map g xs) = [x]"
proof (induction xs)
  case Nil
  then show ?case by simp
next
  case (Cons a as)
  then show ?case by (cases as) auto
qed

text \<open>
  Claim C9. Every file a successful run of the writer leaves at the output path carries
  the root attributes \<open>format = "univ"\<close>, \<open>version = "1.0"\<close>, \<open>schema_version = "1.0"\<close>,
  in this order and no other root attribute, and its entries were written in one pass,
  group after group: ImageData, Thumbnail, Metadata, Provenance, and the schema stamp
  last.
\<close>

theorem container_stamp_and_group_order:
  fixes a :: "'a ndarray"
  assumes "write_univ lib now output_path a md flag cmp lvl files = (None, files')"
  shows "\<exists>f. files' output_path = Some f \<and>
     attrs_of ''/'' f = [(''format'', StrV ''univ''), (''version'', StrV ''1.0''),
                        (''schema_version'', StrV ''1.0'')] \<and>
     remdups_adj (map written_group f) =
       [''ImageData'', ''Thumbnail'', ''Metadata'', ''Provenance'', ''Schema'']"
proof -
  obtain e f where b: "write_univ_body lib now a md flag cmp lvl [] = (e, f)"
    by (cases "write_univ_body lib now a md flag cmp lvl []") auto
  with assms have r: "e = None" "files' = files(output_path \<mapsto> f)"
    by (simp_all add: write_univ_def)
  let ?sch = "[SetAttr ''/'' ''format'' (StrV ''univ''),
            SetAttr ''/'' ''version'' (StrV ''1.0''),
            SetAttr ''/'' ''schema_version'' (StrV ''1.0'')] :: 'a h5event list"
  from b r(1) have "write_univ_body lib now a md flag cmp lvl [] = (None, f)" by simp
  then obtain base pyr th meta prov where
    f: "f = (base # pyr) @ [th] @ meta @ prov @ ?sch" and
    bp: "event_path base = ''ImageData/Resolution_0''" and
    ch: "level_chain (shape a) 1 pyr" and
    fin: "flag \<and> 512 < min (shape a ! 3) (shape a ! 4) \<longrightarrow>
       min (last (shape a # map dataset_shape pyr) ! 3)
           (last (shape a # map dataset_shape pyr) ! 4) \<le> 256" and
    skip: "\<not> (flag \<and> 512 < min (shape a ! 3) (shape a ! 4)) \<longrightarrow> pyr = []" and
    thp: "event_path th = ''Thumbnail''" and
    mne: "meta \<noteq> []" and
    m: "\<forall>e\<in>set meta. top_level (event_path e) = ''Metadata''" and
    pne: "prov \<noteq> []" and
    p: "\<forall>e\<in>set prov. top_level (event_path e) = ''Provenance''"
    by (rule write_univ_body_layout)
  have img_top: "\<forall>e\<in>set (base # pyr). top_level (event_path e) = ''ImageData''"
    using bp chain_paths[OF ch] by (auto simp: top_level_def)
  have g1: "\<forall>e\<in>set (base # pyr). written_group e = ''ImageData''"
    using img_top by (auto intro: written_group_top)
  have g2: "\<forall>e\<in>set [th]. written_group e = ''Thumbnail''"
    using thp by (simp add: written_group_def top_level_def)
  have g3: "\<forall>e\<in>set meta. written_group e = ''Metadata''"
    using m by (auto intro: written_group_top)
  have g4: "\<forall>e\<in>set prov. written_group e = ''Provenance''"
    using p by (auto intro: written_group_top)
  have g5: "remdups_adj (map written_group ?sch) = [''Schema'']"
    by (simp add: written_group_def)
  have h4: "remdups_adj (map written_group (prov @ ?sch)) = [''Provenance'', ''Schema'']"
  proof -
    have "written_group (hd ?sch) \<noteq> ''Provenance''"
      by (simp add: written_group_def)
    from remdups_adj_block[OF pne g4 _ this] g5 show ?thesis by simp
  qed
  have h3: "remdups_adj (map written_group (meta @ prov @ ?sch))
              = [''Metadata'', ''Provenance'', ''Schema'']"
  proof -
    have "written_group (hd (prov @ ?sch)) \<noteq> ''Metadata''"
      using pne g4 by (cases prov) auto
    from remdups_adj_block[OF mne g3 _ this] h4 show ?thesis by simp
  qed
  have h2: "remdups_adj (map written_group ([th] @ meta @ prov @ ?sch))
              = [''Thumbnail'', ''Metadata'', ''Provenance'', ''Schema'']"
  proof -
    have "written_group (hd (meta @ prov @ ?sch)) \<noteq> ''Thumbnail''"
      using mne g3 by (cases meta) auto
    from remdups_adj_block[OF _ g2 _ this] h3 show ?thesis by simp
  qed
  have h1: "remdups_adj (map written_group f)
              = [''ImageData'', ''Thumbnail'', ''Metadata'', ''Provenance'', ''Schema'']"
  proof -
    have "written_group (hd ([th] @ meta @ prov @ ?sch)) \<noteq> ''ImageData''"
      using g2 by simp
    from remdups_adj_block[OF _ g1 _ this] h2 show ?thesis unfolding f by simp
  qed
  have nr: "\<forall>e\<in>set ((base # pyr) @ [th] @ meta @ prov). event_path e \<noteq> ''/''"
    using img_top thp m p by (auto dest: root_not_top)
  have f': "f = ((base # pyr) @ [th] @ meta @ prov) @ ?sch"
    unfolding f by simp
  have "attrs_of ''/'' f = attrs_of ''/'' ((base # pyr) @ [th] @ meta @ prov) @ attrs_of ''/'' ?sch"
    by (subst f') (rule attrs_of_append)
  also have "attrs_of ''/'' ((base # pyr) @ [th] @ meta @ prov) = []"
    by (rule attrs_of_none[OF nr])
  also have "attrs_of ''/'' ?sch = [(''format'', StrV ''univ''), (''version'', StrV ''1.0''),
                        (''schema_version'', StrV ''1.0'')]"
    by (simp add: attrs_of_def)
  finally have at: "attrs_of ''/'' f = [(''format'', StrV ''univ''), (''version'', StrV ''1.0''),
                        (''schema_version'', StrV ''1.0'')]" by simp
  from r(2) at h1 show ?thesis by (intro exI[of _ f]) simp
qed

lemma pyr513_run:
  "fst (create_pyramid accept_all (zeros [1, 1, 1, 513, 513]) ''gzip'' 4 []) = None"
  "length (snd (create_pyramid accept_all (zeros [1, 1, 1, 513, 513]) ''gzip'' 4 [])) = 2"
  by (simp_all add: eval_defs)

text \<open>
  The pyramid of a 513 x 513 base: two levels, 257 x 257 and 129 x 129, and the loop
  ends without an exception.
\<close>

theorem pyramid_levels_halve_witness:
  "fst (create_pyramid accept_all (zeros [1, 1, 1, 513, 513]) ''gzip'' 4 []) = None \<and>
   (\<exists>new. snd (create_pyramid accept_all (zeros [1, 1, 1, 513, 513]) ''gzip'' 4 []) = new \<and>
      length new = 2 \<and>
      event_path (new ! 0) = ''ImageData/Resolution_1'' \<and>
      event_path (new ! 1) = ''ImageData/Resolution_2'' \<and>
      dataset_shape (new ! 0) = [1, 1, 1, 257, 257] \<and>
      dataset_shape (new ! 1) = [1, 1, 1, 129, 129] \<and>
      min (dataset_shape (new ! 1) ! 3) (dataset_shape (new ! 1) ! 4) \<le> 256)"
proof -
  let ?a = "zeros [1, 1, 1, 513, 513]"
  let ?r = "create_pyramid accept_all ?a ''gzip'' 4 []"
  have sh: "shape ?a = [1, 1, 1, 513, 513]" by (simp add: zeros_def)
  have run: "?r = (fst ?r, snd ?r)" by simp
  from pyramid_levels_halve [OF sh run] obtain new where
    n: "snd ?r = [] @ new" and
    q: "let shs = shape ?a # map dataset_shape new in
        (\<forall>k<length new.
           event_path (new ! k) = ''ImageData/Resolution_'' @ str_nat (Suc k) \<and>
           256 < min (shs ! k ! 3) (shs ! k ! 4) \<and>
           shs ! Suc k = [1, 1, 1, (shs ! k ! 3 + 1) div 2, (shs ! k ! 4 + 1) div 2]) \<and>
        (fst ?r = None \<longrightarrow> min (last shs ! 3) (last shs ! 4) \<le> 256)"
    by (elim exE conjE)
  from n pyr513_run(2) have len: "length new = 2" by simp
  then obtain e0 e1 where new: "new = [e0, e1]"
    by (auto simp: length_Suc_conv numeral_2_eq_2)
  from q have steps: "\<And>k. k < length new \<Longrightarrow>
           event_path (new ! k) = ''ImageData/Resolution_'' @ str_nat (Suc k) \<and>
           (shape ?a # map dataset_shape new) ! Suc k =
             [1, 1, 1, ((shape ?a # map dataset_shape new) ! k ! 3 + 1) div 2,
                       ((shape ?a # map dataset_shape new) ! k ! 4 + 1) div 2]"
    unfolding Let_def by blast
  from steps[of 0] have s0: "event_path e0 = ''ImageData/Resolution_1''"
      "dataset_shape e0 = [1, 1, 1, 257, 257]"
    by (simp_all add: new zeros_def str_nat.simps)
  from steps[of 1] s0(2) have s1: "event_path e1 = ''ImageData/Resolution_2''"
      "dataset_shape e1 = [1, 1, 1, 129, 129]"
    by (simp_all add: new zeros_def str_nat.simps)
  from n new s0 s1 pyr513_run(1) show ?thesis by simp
qed

text \<open>
  Claim C1 as stated fails there: level 1 has extent 257, and \<open>floor(513 / 2)\<close> is 256.
\<close>

theorem pyramid_floor_counterexample:
  "dataset_shape (hd (snd (create_pyramid accept_all (zeros [1, 1, 1, 513, 513]) ''gzip'' 4 [])))
     = [1, 1, 1, 257, 257] \<and> (257::nat) \<noteq> 513 div 2"
  by (simp add: eval_defs)

text \<open>
  A 513 x 513 base written with the pyramid requested, and a 512 x 600 base, which gets
  no level.
\<close>

theorem pyramid_gate_and_depth_witness:
  "(\<exists>f. snd (write_univ accept_all still_clock ''out.univ'' (zeros [1, 1, 1, 513, 513])
              no_metadata True ''gzip'' 4 Map.empty) ''out.univ'' = Some f \<and>
        0 < length (pyramid_levels f) \<and>
        256 * 2 ^ (length (pyramid_levels f) - 1) < (513::nat) \<and>
        (513::nat) \<le> 256 * 2 ^ length (pyramid_levels f)) \<and>
   (\<exists>f. snd (write_univ accept_all still_clock ''out.univ'' (zeros [1, 1, 1, 512, 600])
              no_metadata True ''gzip'' 4 Map.empty) ''out.univ'' = Some f \<and>
        pyramid_levels f = [])"
proof -
  let ?w = "write_univ accept_all still_clock ''out.univ'' (zeros [1, 1, 1, 513, 513])
              no_metadata True ''gzip'' 4 Map.empty"
  let ?v = "write_univ accept_all still_clock ''out.univ'' (zeros [1, 1, 1, 512, 600])
              no_metadata True ''gzip'' 4 Map.empty"
  have ok: "fst ?w = None" by (simp add: eval_defs)
  have shw: "shape (zeros [1, 1, 1, 513, 513]) = [1, 1, 1, 513, 513]" by (simp add: zeros_def)
  have shv: "shape (zeros [1, 1, 1, 512, 600]) = [1, 1, 1, 512, 600]" by (simp add: zeros_def)
  have rw: "?w = (fst ?w, snd ?w)" by simp
  have rv: "?v = (fst ?v, snd ?v)" by simp
  from pyramid_gate_and_depth [OF shw rw] ok
  have "\<exists>f. snd ?w ''out.univ'' = Some f \<and>
        0 < length (pyramid_levels f) \<and>
        256 * 2 ^ (length (pyramid_levels f) - 1) < (513::nat) \<and>
        (513::nat) \<le> 256 * 2 ^ length (pyramid_levels f)"
    by simp
  moreover from pyramid_gate_and_depth [OF shv rv]
  have "\<exists>f. snd ?v ''out.univ'' = Some f \<and> pyramid_levels f = []"
    by simp
  ultimately show ?thesis by blast
qed

text \<open>
  Claim C7 as stated fails on the 513 x 513 base: the file has two pyramid levels, and
  \<open>floor(log2(513 / 256))\<close> is 1.
\<close>

theorem level_count_counterexample:
  "length (pyramid_levels (the (snd (write_univ accept_all still_clock ''out.univ''
       (zeros [1, 1, 1, 513, 513]) no_metadata True ''gzip'' 4 Map.empty) ''out.univ''))) = 2 \<and>
   spec_level_count (min 513 513) = 1"
proof -
  have "length (pyramid_levels (the (snd (write_univ accept_all still_clock ''out.univ''
       (zeros [1, 1, 1, 513, 513]) no_metadata True ''gzip'' 4 Map.empty) ''out.univ''))) = 2"
    by (simp add: eval_defs pyramid_levels_def str_nat.simps)
  then show ?thesis using spec_level_count_513 by simp
qed

text \<open>
  The stamp and the order of the groups in the file written for a 2 x 2 base.
\<close>

theorem container_stamp_and_group_order_witness:
  "\<exists>f. snd (write_univ accept_all still_clock ''out.univ'' (zeros [1, 1, 1, 2, 2])
              no_metadata True ''gzip'' 4 Map.empty) ''out.univ'' = Some f \<and>
     attrs_of ''/'' f = [(''format'', StrV ''univ''), (''version'', StrV ''1.0''),
                        (''schema_version'', StrV ''1.0'')] \<and>
     remdups_adj (map written_group f) =
       [''ImageData'', ''Thumbnail'', ''Metadata'', ''Provenance'', ''Schema'']"
proof -
  let ?w = "write_univ accept_all still_clock ''out.univ'' (zeros [1, 1, 1, 2, 2])
              no_metadata True ''gzip'' 4 Map.empty"
  have "fst ?w = None" by (simp add: eval_defs)
  then have "?w = (None, snd ?w)" by (simp add: prod_eq_iff)
  from container_stamp_and_group_order [OF this] show ?thesis .
qed

section \<open>Evaluations and exit paths\<close>

text \<open>
  Claim C10. On the empty list of scene descriptors the selector returns index 0
  and raises nothing.
\<close>

theorem empty_scene_list_selects_zero: "find_main_image_scene [] = Inr 0"
  by (simp add: find_main_image_scene_def)




text \<open>
  The thumbnail of a 300 x 300 base. The scale is \<open>256 / 300\<close>, below 1; its reciprocal is
  \<open>75 / 64\<close>, which \<^verbatim>\<open>int\<close> truncates to the step 1. In floating point the two
  quotients are within rounding of these values, far from the integers 1 and 2, so the
  step is 1 there as well.
\<close>

lemma floor_75_64: "\<lfloor>75 / 64 :: rat\<rfloor> = 1"
  by (simp add: floor_eq_iff)

text \<open>
  Claim C6 at the input of shape \<open>(1, 1, 1, 300, 300)\<close>: the thumbnail written is the
  whole 300 x 300 plane, larger than 256 in Y and in X.
\<close>

theorem thumbnail_exceeds_256:
  "fst (create_thumbnail accept_all (zeros [1, 1, 1, 300, 300]) []) = None \<and>
   map event_path (snd (create_thumbnail accept_all (zeros [1, 1, 1, 300, 300]) []))
     = [''Thumbnail''] \<and>
   map dataset_shape (snd (create_thumbnail accept_all (zeros [1, 1, 1, 300, 300]) []))
     = [[1, 300, 300]]"
  by (simp add: eval_defs floor_75_64)

text \<open>
  Claim C3 at a rank-4 input of shape \<open>(3, 2, 4, 5)\<close>, read as \<open>(Z, C, Y, X)\<close>: the result
  has shape \<open>(3, 2, 1, 4, 5)\<close>, not \<open>(1, 2, 3, 4, 5)\<close>, and the element at Z index 2 is
  found at index 2 of the first (T) axis.
\<close>

theorem rank4_z_axis_becomes_t:
  "\<not> isl (normalize_axes (arange [3, 2, 4, 5])) \<and>
   shape (projr (normalize_axes (arange [3, 2, 4, 5]))) = [3, 2, 1, 4, 5] \<and>
   item (projr (normalize_axes (arange [3, 2, 4, 5]))) [2, 1, 0, 3, 4]
     = item (arange [3, 2, 4, 5]) [2, 1, 3, 4]"
  by (simp add: normalize_axes_def ndim_def arange_def insert_axis_def)

text \<open>
  Claim C4 at the route OME-Zarr to OME-TIFF, when the first converter writes the
  intermediate container and the second one fails: \<^verbatim>\<open>_convert_file\<close> and the loop body of
  \<^verbatim>\<open>_convert_batch\<close> both end with the exception and with \<^verbatim>\<open>out.ome.temp.univ\<close> still on
  disk.
\<close>

theorem two_step_failure_leaves_temp:
  "convert_file test_converters (\<lambda>p. False) ''scan.zarr'' ''out.ome.tif'' ''ome-tiff''
       Map.empty
     = (Some (RuntimeError ''conversion returned False - conversion failed''),
        [''out.ome.temp.univ'' \<mapsto> 1]) \<and>
   convert_batch_item test_converters (\<lambda>p. False) ''scan.zarr'' ''out.ome.tif'' ''ome-tiff''
       Map.empty
     = (Some (RuntimeError ''conversion returned False - conversion failed''),
        [''out.ome.temp.univ'' \<mapsto> 1])"
  by (simp add: convert_file_def convert_batch_item_def two_step_def with_suffix_def
        path_suffix_def path_name_def test_converters_def writing_hop_def failing_hop_def Let_def)

section \<open>Properties of the scene selector\<close>

text \<open>
  The element \<^verbatim>\<open>max\<close> returns splits the list: every element before it has a strictly
  smaller key, every element after it a key that is not greater.
\<close>

lemma max_from_split:
  "\<exists>pre post. b # xs = pre @ max_from k b xs # post \<and>
     (\<forall>x\<in>set pre. k x < k (max_from k b xs)) \<and>
     (\<forall>x\<in>set post. k x \<le> k (max_from k b xs))"
proof (induction xs arbitrary: b)
  case Nil
  show ?case by (intro exI[of _ "[]"]) simp
next
  case (Cons x xs)
  define b' where "b' = (if k x > k b then x else b)"
  define m where "m = max_from k b' xs"
  have step: "max_from k b (x # xs) = m" by (simp add: m_def b'_def)
  have choice: "(b' = x \<and> k b < k x) \<or> (b' = b \<and> k x \<le> k b)"
    by (auto simp: b'_def)
  from Cons.IH[of b'] obtain pre post where
    sp: "b' # xs = pre @ m # post" and
    lt: "\<forall>y\<in>set pre. k y < k m" and
    le: "\<forall>y\<in>set post. k y \<le> k m"
    unfolding m_def by blast
  show ?case
  proof (cases pre)
    case Nil
    with sp have bm: "m = b'" and px: "post = xs" by auto
    from choice show ?thesis
    proof
      assume c: "b' = x \<and> k b < k x"
      with bm have "b # x # xs = [b] @ m # xs" "\<forall>y\<in>set [b]. k y < k m" by simp_all
      with le px show ?thesis unfolding step by blast
    next
      assume c: "b' = b \<and> k x \<le> k b"
      with bm have "b # x # xs = [] @ m # (x # xs)" "\<forall>y\<in>set (x # xs). k y \<le> k m"
        using le px by simp_all
      then show ?thesis unfolding step by (intro exI[of _ "[]"] exI[of _ "x # xs"]) simp
    qed
  next
    case (Cons p pre')
    with sp have p: "p = b'" and xs: "xs = pre' @ m # post" by auto
    from lt Cons p have bl: "k b' < k m" by simp
    with choice have "k b < k m" "k x < k m" by auto
    with lt Cons have "\<forall>y\<in>set (b # x # pre'). k y < k m" by simp
    moreover from xs have "b # x # xs = (b # x # pre') @ m # post" by simp
    ultimately show ?thesis using le unfolding step by blast
  qed
qed

lemma analyze_nth:
  assumes "i < length (analyze_vsi_structure raw shp)"
  shows "scene_index (analyze_vsi_structure raw shp ! i) = i"
    and "total_pixels (analyze_vsi_structure raw shp ! i)
           = width (analyze_vsi_structure raw shp ! i) * height (analyze_vsi_structure raw shp ! i)"
proof -
  show "scene_index (analyze_vsi_structure raw shp ! i) = i"
  proof (cases "raw = []")
    case True
    with assms show ?thesis by (simp add: analyze_vsi_structure_def split: if_splits)
  next
    case False
    with assms have "i < length raw" by (simp add: analyze_vsi_structure_def)
    with False show ?thesis
      by (simp add: analyze_vsi_structure_def nth_enumerate_eq scene_data_def Let_def
               split: prod.splits)
  qed
  show "total_pixels (analyze_vsi_structure raw shp ! i)
           = width (analyze_vsi_structure raw shp ! i) * height (analyze_vsi_structure raw shp ! i)"
  proof (cases "raw = []")
    case True
    with assms show ?thesis by (simp add: analyze_vsi_structure_def split: if_splits)
  next
    case False
    with assms have "i < length raw" by (simp add: analyze_vsi_structure_def)
    with False show ?thesis
      by (simp add: analyze_vsi_structure_def nth_enumerate_eq scene_data_def Let_def
               split: prod.splits)
  qed
qed

lemma analyze_sorted:
  "sorted_wrt (\<lambda>a b. scene_index a < scene_index b) (analyze_vsi_structure raw shp)"
  by (simp add: sorted_wrt_iff_nth_less analyze_nth(1))

lemma selection_general:
  fixes raw :: "(string \<times> nat list) list" and shp :: "nat list"
  defines "ss \<equiv> analyze_vsi_structure raw shp"
  defines "aux \<equiv> (\<lambda>s. contains ''label'' (lower (scene_name s)) \<or>
                      contains ''macro'' (lower (scene_name s)))"
  defines "cands \<equiv> (if \<forall>s\<in>set ss. aux s then ss else filter (\<lambda>s. \<not> aux s) ss)"
  assumes ne: "ss \<noteq> []"
  shows "\<exists>r. find_main_image_scene ss = Inr r \<and> r < length ss \<and>
           scene_index (ss ! r) = r \<and>
           total_pixels (ss ! r) = width (ss ! r) * height (ss ! r) \<and>
           ss ! r \<in> set cands \<and>
           (\<forall>s\<in>set cands. total_pixels s \<le> total_pixels (ss ! r) \<and>
              (total_pixels s = total_pixels (ss ! r) \<longrightarrow> r \<le> scene_index s))"
proof -
  let ?P = "\<lambda>s. \<not> contains ''label'' (lower (scene_name s)) \<and>
                 \<not> contains ''macro'' (lower (scene_name s))"
  have P: "?P = (\<lambda>s. \<not> aux s)" by (auto simp: aux_def)
  have c: "cands = (if filter ?P ss = [] then ss else filter ?P ss)"
    unfolding cands_def P by (auto simp: filter_empty_conv)
  have cne: "cands \<noteq> []" using ne unfolding c by auto
  have sub: "set cands \<subseteq> set ss" unfolding c by auto
  have srt: "sorted_wrt (\<lambda>a b. scene_index a < scene_index b) cands"
    unfolding c using analyze_sorted[of raw shp] by (auto simp: ss_def sorted_wrt_filter)
  from cne obtain x rest where xr: "cands = x # rest" by (cases cands) auto
  define m where "m = max_from total_pixels x rest"
  have fm: "find_main_image_scene ss = Inr (scene_index m)"
    using ne xr unfolding find_main_image_scene_def Let_def c[symmetric] m_def
    by (simp add: max_key_def)
  from max_from_split[of x rest total_pixels] obtain pre post where
    sp: "cands = pre @ m # post" and
    lt: "\<forall>y\<in>set pre. total_pixels y < total_pixels m" and
    le: "\<forall>y\<in>set post. total_pixels y \<le> total_pixels m"
    unfolding xr m_def by blast
  from sp have mc: "m \<in> set cands" by simp
  with sub have "m \<in> set ss" by blast
  then obtain p where p: "p < length ss" "ss ! p = m" by (auto simp: in_set_conv_nth)
  from analyze_nth[of p raw shp] p have ip: "scene_index m = p"
    and tp: "total_pixels m = width m * height m"
    by (simp_all add: ss_def)
  from srt have after: "\<forall>y\<in>set post. scene_index m < scene_index y"
    unfolding sp by (simp add: sorted_wrt_append)
  have best: "total_pixels s \<le> total_pixels m \<and>
              (total_pixels s = total_pixels m \<longrightarrow> scene_index m \<le> scene_index s)"
    if "s \<in> set cands" for s
  proof -
    from that sp consider "s \<in> set pre" | "s = m" | "s \<in> set post" by auto
    then show ?thesis
    proof cases
      case 1
      with lt show ?thesis by auto
    next
      case 2
      then show ?thesis by simp
    next
      case 3
      with le after show ?thesis by (auto simp: less_imp_le)
    qed
  qed
  show ?thesis
    using fm p ip tp mc best by (intro exI[of _ p]) auto
qed

text \<open>
  The first element of a stable sort with the largest key first is the element that
  \<^verbatim>\<open>max\<close> returns, so the two selectors agree.
\<close>

lemma hd_insort_key:
  "hd (insort_key f y zs) = (if zs = [] \<or> f y \<le> f (hd zs) then y else hd zs)"
  by (cases zs) auto

lemma sort_key_nonempty: "sort_key f ys = [] \<longleftrightarrow> ys = []"
  by (metis length_sort list.size(3) length_0_conv)

lemma hd_sort_key_split:
  "(\<forall>y\<in>set pre. f m < f y) \<Longrightarrow> (\<forall>y\<in>set post. f m \<le> f y) \<Longrightarrow>
     hd (sort_key f (pre @ m # post)) = m"
proof (induction pre)
  case Nil
  show ?case
  proof (cases "post = []")
    case True
    then show ?thesis by simp
  next
    case False
    then have ne: "sort_key f post \<noteq> []" by (simp add: sort_key_nonempty)
    then have "hd (sort_key f post) \<in> set (sort_key f post)" by (rule hd_in_set)
    then have "hd (sort_key f post) \<in> set post" by (simp only: set_sort)
    with Nil.prems(2) have "f m \<le> f (hd (sort_key f post))" by blast
    then show ?thesis by (simp add: hd_insort_key)
  qed
next
  case (Cons y pre)
  then have ih: "hd (sort_key f (pre @ m # post)) = m" by simp
  have ne: "sort_key f (pre @ m # post) \<noteq> []" by (simp add: sort_key_nonempty)
  from Cons.prems(1) have "\<not> f y \<le> f m" by auto
  with ih ne show ?case by (simp add: hd_insort_key)
qed

lemma hd_sort_key_max_from:
  fixes g :: "'a \<Rightarrow> nat"
  shows "hd (sort_key (\<lambda>t. - int (g t)) (x # rest)) = max_from g x rest"
proof -
  from max_from_split[of x rest g] obtain pre post where
    sp: "x # rest = pre @ max_from g x rest # post" and
    lt: "\<forall>y\<in>set pre. g y < g (max_from g x rest)" and
    le: "\<forall>y\<in>set post. g y \<le> g (max_from g x rest)"
    by blast
  have "hd (sort_key (\<lambda>t. - int (g t)) (pre @ max_from g x rest # post)) = max_from g x rest"
    using lt le by (intro hd_sort_key_split) auto
  then show ?thesis unfolding sp[symmetric] .
qed

lemma max_from_cong:
  "(\<forall>y\<in>set (x # rest). k1 y = k2 y) \<Longrightarrow> max_from k1 x rest = max_from k2 x rest"
  by (induction rest arbitrary: x) auto

lemma max_from_map:
  "max_from k (c x) (map c rest) = c (max_from (\<lambda>t. k (c t)) x rest)"
  by (induction rest arbitrary: x) auto

lemma gui_selection_agrees:
  fixes raw :: "(string \<times> nat list) list"
  assumes many: "1 < length raw" and ranks: "\<forall>(nm, s)\<in>set raw. 2 \<le> length s"
  shows "select_vsi_scene_auto raw
           = map_sum id Some (find_main_image_scene (analyze_vsi_structure raw shp))"
proof -
  define T where "T = map (\<lambda>(i, (nm, s)). (i, nm, s ! (length s - 2) * s ! (length s - 1), s))
                          (enumerate 0 raw)"
  define conv :: "nat \<times> string \<times> nat \<times> nat list \<Rightarrow> scene"
    where "conv = (\<lambda>(i, n, sz, sh). scene_data i n sh)"
  define P' :: "nat \<times> string \<times> nat \<times> nat list \<Rightarrow> bool"
    where "P' = (\<lambda>(i, n, s, sh). \<not> contains ''label'' (lower n) \<and>
                                  \<not> contains ''macro'' (lower n))"
  define P :: "scene \<Rightarrow> bool"
    where "P = (\<lambda>s. \<not> contains ''label'' (lower (scene_name s)) \<and>
                     \<not> contains ''macro'' (lower (scene_name s)))"
  define g :: "nat \<times> string \<times> nat \<times> nat list \<Rightarrow> nat" where "g = (\<lambda>(i, n, s, sh). s)"
  define MT where "MT = (if filter P' T = [] then T else filter P' T)"
  let ?ss = "analyze_vsi_structure raw shp"
  from many have rne: "raw \<noteq> []" by auto
  have ss: "?ss = map conv T"
    using rne by (simp add: analyze_vsi_structure_def T_def conv_def comp_def case_prod_beta)
  have "length T = length raw" by (simp add: T_def)
  with rne have Tne: "T \<noteq> []" by auto
  have PP: "P \<circ> conv = P'"
    by (auto simp: P_def P'_def conv_def scene_data_def Let_def fun_eq_iff)
  have fl: "filter P ?ss = map conv (filter P' T)"
    unfolding ss filter_map PP ..
  have MS: "(if filter P ?ss = [] then ?ss else filter P ?ss) = map conv MT"
    unfolding fl MT_def using ss by simp
  have MTne: "MT \<noteq> []" using Tne by (simp add: MT_def)
  then obtain x rest where xr: "MT = x # rest" by (cases MT) auto
  have sub: "set MT \<subseteq> set T" by (auto simp: MT_def)
  have key: "total_pixels (conv t) = g t" if "t \<in> set T" for t
  proof -
    from that obtain i nm s where t: "t = (i, nm, s ! (length s - 2) * s ! (length s - 1), s)"
      and m: "(i, (nm, s)) \<in> set (enumerate 0 raw)"
      by (auto simp: T_def)
    from m have "(nm, s) \<in> set raw" by (auto simp: in_set_enumerate_eq dest: nth_mem)
    with ranks have "2 \<le> length s" by auto
    then show ?thesis by (simp add: t conv_def g_def scene_data_def Let_def)
  qed
  have idx: "scene_index (conv t) = fst t" for t
    by (cases t) (simp add: conv_def scene_data_def Let_def)
  have nosmall: "\<not> (\<exists>(nm, s)\<in>set raw. length s < 2)"
    using ranks by fastforce
  have "select_vsi_scene_auto raw
          = Inr (Some (fst (hd (sort_key (\<lambda>(i, n, s, sh). - int s) MT))))"
    using many nosmall
    unfolding select_vsi_scene_auto_def Let_def T_def[symmetric] P'_def[symmetric]
      MT_def[symmetric]
    by simp
  also have "(\<lambda>(i, n, s, sh). - int s) = (\<lambda>t. - int (g t))"
    by (auto simp: g_def fun_eq_iff)
  also have "hd (sort_key (\<lambda>t. - int (g t)) MT) = max_from g x rest"
    unfolding xr by (rule hd_sort_key_max_from)
  finally have sel: "select_vsi_scene_auto raw = Inr (Some (fst (max_from g x rest)))" .
  have "find_main_image_scene ?ss
          = Inr (scene_index (max_from total_pixels (conv x) (map conv rest)))"
    using ss Tne
    unfolding find_main_image_scene_def Let_def P_def[symmetric] MS xr
    by (simp add: max_key_def)
  also have "max_from total_pixels (conv x) (map conv rest)
               = conv (max_from (\<lambda>t. total_pixels (conv t)) x rest)"
    by (rule max_from_map)
  also have "max_from (\<lambda>t. total_pixels (conv t)) x rest = max_from g x rest"
    using key sub unfolding xr by (intro max_from_cong) auto
  finally have "find_main_image_scene ?ss = Inr (fst (max_from g x rest))"
    by (simp add: idx)
  with sel show ?thesis by simp
qed

lemma spec_scenes_analyzed:
  "analyze_vsi_structure
     [(''Label_1'', [100, 100]), (''20x_BF_01'', [30000, 40000]), (''Overview'', [1500, 2000])] []
   = [\<lparr> scene_index = 0, scene_name = ''Label_1'', scene_shape = [100, 100],
         width = 100, height = 100, total_pixels = 10000 \<rparr>,
      \<lparr> scene_index = 1, scene_name = ''20x_BF_01'', scene_shape = [30000, 40000],
         width = 40000, height = 30000, total_pixels = 1200000000 \<rparr>,
      \<lparr> scene_index = 2, scene_name = ''Overview'', scene_shape = [1500, 2000],
         width = 2000, height = 1500, total_pixels = 3000000 \<rparr>]"
  by (simp add: analyze_vsi_structure_def enumerate_eq_zip scene_data_def Let_def upt_rec)

lemma spec_names:
  "contains ''label'' (lower ''Label_1'')"
  "\<not> contains ''label'' (lower ''20x_BF_01'')" "\<not> contains ''macro'' (lower ''20x_BF_01'')"
  "\<not> contains ''label'' (lower ''Overview'')" "\<not> contains ''macro'' (lower ''Overview'')"
  by (simp_all add: lower_def lower_char_def)

text \<open>
  Claim C2. For the scene descriptors that \<^verbatim>\<open>_analyze_vsi_structure\<close> builds (not empty),
  \<^verbatim>\<open>_find_main_image_scene\<close> returns an index \<open>r\<close> of the list; the scene there carries
  index \<open>r\<close> and the pixel count \<open>width * height\<close>; it is one of the candidates, which
  are the scenes whose lower-cased name contains neither "label" nor "macro", or all
  scenes when there is no such scene; no candidate has more pixels, and a candidate
  with as many pixels has an index that is not smaller. On the three scenes Label_1
  (100 x 100), 20x_BF_01 (40000 x 30000), Overview (2000 x 1500) the result is 1. The
  automatic choice of \<^verbatim>\<open>FormatConverterGUI._select_vsi_scene\<close> is the same scene, when
  there are two scenes or more, each of rank 2 at least.
\<close>

theorem main_scene_selection:
  "(analyze_vsi_structure raw shp \<noteq> [] \<longrightarrow>
     (\<exists>r. let ss = analyze_vsi_structure raw shp;
              aux = (\<lambda>s. contains ''label'' (lower (scene_name s)) \<or>
                          contains ''macro'' (lower (scene_name s)));
              cands = (if \<forall>s\<in>set ss. aux s then ss else filter (\<lambda>s. \<not> aux s) ss)
          in find_main_image_scene ss = Inr r \<and> r < length ss \<and>
             scene_index (ss ! r) = r \<and>
             total_pixels (ss ! r) = width (ss ! r) * height (ss ! r) \<and>
             ss ! r \<in> set cands \<and>
             (\<forall>s\<in>set cands. total_pixels s \<le> total_pixels (ss ! r) \<and>
                (total_pixels s = total_pixels (ss ! r) \<longrightarrow> r \<le> scene_index s)))) \<and>
   find_main_image_scene
     (analyze_vsi_structure
        [(''Label_1'', [100, 100]), (''20x_BF_01'', [30000, 40000]),
         (''Overview'', [1500, 2000])] []) = Inr 1 \<and>
   (1 < length raw \<and> (\<forall>(nm, s)\<in>set raw. 2 \<le> length s) \<longrightarrow>
      select_vsi_scene_auto raw
        = map_sum id Some (find_main_image_scene (analyze_vsi_structure raw shp)))"
proof (intro conjI)
  show "analyze_vsi_structure raw shp \<noteq> [] \<longrightarrow>
     (\<exists>r. let ss = analyze_vsi_structure raw shp;
              aux = (\<lambda>s. contains ''label'' (lower (scene_name s)) \<or>
                          contains ''macro'' (lower (scene_name s)));
              cands = (if \<forall>s\<in>set ss. aux s then ss else filter (\<lambda>s. \<not> aux s) ss)
          in find_main_image_scene ss = Inr r \<and> r < length ss \<and>
             scene_index (ss ! r) = r \<and>
             total_pixels (ss ! r) = width (ss ! r) * height (ss ! r) \<and>
             ss ! r \<in> set cands \<and>
             (\<forall>s\<in>set cands. total_pixels s \<le> total_pixels (ss ! r) \<and>
                (total_pixels s = total_pixels (ss ! r) \<longrightarrow> r \<le> scene_index s)))"
    unfolding Let_def using selection_general[of raw shp] by blast
  show "find_main_image_scene
     (analyze_vsi_structure
        [(''Label_1'', [100, 100]), (''20x_BF_01'', [30000, 40000]),
         (''Overview'', [1500, 2000])] []) = Inr 1"
    unfolding spec_scenes_analyzed
    by (simp add: find_main_image_scene_def max_key_def spec_names Let_def)
  show "(1 < length raw \<and> (\<forall>(nm, s)\<in>set raw. 2 \<le> length s) \<longrightarrow>
        select_vsi_scene_auto raw
          = map_sum id Some (find_main_image_scene (analyze_vsi_structure raw shp)))"
    using gui_selection_agrees[of raw shp] by blast
qed

text \<open>
  The selection on the three scenes of the example, derived from the general statement:
  the candidates are scenes 1 and 2, and scene 1 has more pixels.
\<close>

theorem main_scene_selection_witness:
  "analyze_vsi_structure
     [(''Label_1'', [100, 100]), (''20x_BF_01'', [30000, 40000]), (''Overview'', [1500, 2000])] []
     \<noteq> [] \<and>
   find_main_image_scene
     (analyze_vsi_structure
        [(''Label_1'', [100, 100]), (''20x_BF_01'', [30000, 40000]),
         (''Overview'', [1500, 2000])] []) = Inr 1 \<and>
   scene_name (analyze_vsi_structure
        [(''Label_1'', [100, 100]), (''20x_BF_01'', [30000, 40000]),
         (''Overview'', [1500, 2000])] [] ! 1) = ''20x_BF_01'' \<and>
   select_vsi_scene_auto
     [(''Label_1'', [100, 100]), (''20x_BF_01'', [30000, 40000]), (''Overview'', [1500, 2000])]
     = Inr (Some 1)"
proof -
  let ?raw = "[(''Label_1'', [100, 100]), (''20x_BF_01'', [30000, 40000]),
               (''Overview'', [1500, 2000])] :: (string \<times> nat list) list"
  let ?s0 = "\<lparr> scene_index = 0, scene_name = ''Label_1'', scene_shape = [100, 100],
         width = 100, height = 100, total_pixels = 10000 \<rparr>"
  let ?s1 = "\<lparr> scene_index = 1, scene_name = ''20x_BF_01'', scene_shape = [30000, 40000],
         width = 40000, height = 30000, total_pixels = 1200000000 \<rparr>"
  let ?s2 = "\<lparr> scene_index = 2, scene_name = ''Overview'', scene_shape = [1500, 2000],
         width = 2000, height = 1500, total_pixels = 3000000 \<rparr>"
  let ?ss = "analyze_vsi_structure ?raw []"
  have ss: "?ss = [?s0, ?s1, ?s2]" by (rule spec_scenes_analyzed)
  then have ne: "?ss \<noteq> []" by simp
  from main_scene_selection [of ?raw "[]", THEN conjunct1, rule_format, OF ne]
  obtain r where
    f: "find_main_image_scene ?ss = Inr r" and
    c: "?ss ! r \<in> set (if \<forall>s\<in>set ?ss. contains ''label'' (lower (scene_name s)) \<or>
                                      contains ''macro'' (lower (scene_name s))
                        then ?ss
                        else filter (\<lambda>s. \<not> (contains ''label'' (lower (scene_name s)) \<or>
                                              contains ''macro'' (lower (scene_name s)))) ?ss)" and
    b: "\<forall>s\<in>set (if \<forall>s\<in>set ?ss. contains ''label'' (lower (scene_name s)) \<or>
                                      contains ''macro'' (lower (scene_name s))
                        then ?ss
                        else filter (\<lambda>s. \<not> (contains ''label'' (lower (scene_name s)) \<or>
                                              contains ''macro'' (lower (scene_name s)))) ?ss).
          total_pixels s \<le> total_pixels (?ss ! r) \<and>
          (total_pixels s = total_pixels (?ss ! r) \<longrightarrow> r \<le> scene_index s)" and
    i: "scene_index (?ss ! r) = r"
    unfolding Let_def by blast
  have cands: "(if \<forall>s\<in>set ?ss. contains ''label'' (lower (scene_name s)) \<or>
                                      contains ''macro'' (lower (scene_name s))
                        then ?ss
                        else filter (\<lambda>s. \<not> (contains ''label'' (lower (scene_name s)) \<or>
                                              contains ''macro'' (lower (scene_name s)))) ?ss)
               = [?s1, ?s2]"
    unfolding ss by (simp add: spec_names)
  from c have "?ss ! r = ?s1 \<or> ?ss ! r = ?s2" unfolding cands by simp
  moreover from b have "total_pixels ?s1 \<le> total_pixels (?ss ! r)" unfolding cands by simp
  ultimately have "?ss ! r = ?s1" by auto
  with i have "r = 1" by simp
  with f have f1: "find_main_image_scene ?ss = Inr 1" by simp
  have "1 < length ?raw \<and> (\<forall>(nm, s)\<in>set ?raw. 2 \<le> length s)" by simp
  with main_scene_selection [of ?raw "[]", THEN conjunct2, THEN conjunct2]
  have "select_vsi_scene_auto ?raw = map_sum id Some (find_main_image_scene ?ss)"
    by blast
  with f1 have "select_vsi_scene_auto ?raw = Inr (Some 1)" by simp
  with f1 ne ss show ?thesis by simp
qed

end
